theory Spec2Isabelle
  imports Main
begin

section \<open>Storage model\<close>

text \<open>
  The header \<^verbatim>\<open>vector.h\<close> defines \<^verbatim>\<open>RawMemory<T>\<close>, a block of raw memory for a
  fixed number of objects of type \<^verbatim>\<open>T\<close>, and \<^verbatim>\<open>Vector<T>\<close>, which owns one block and
  a count of constructed objects.

  A slot of a block either holds no object (\<open>Uninit\<close>) or holds an object with a value
  (\<open>Live x\<close>). A block is the list of its slots; its capacity is the length of the list,
  and the null block of capacity 0 is the empty list. Values of \<^verbatim>\<open>size_t\<close> are natural
  numbers: a block of \<open>2^63\<close> objects cannot be allocated, so \<^verbatim>\<open>2 * size_\<close> does not
  wrap around. An iterator or a reference into a block is the offset of its slot from the
  start of the block.

  Allocation. \<^verbatim>\<open>Reserve\<close> asks for as many objects as its caller says, so its model
  carries what \<^verbatim>\<open>Allocate\<close> does with the request: the byte count \<^verbatim>\<open>n * sizeof(T)\<close> is
  computed in \<^verbatim>\<open>size_t\<close> and may wrap, and \<^verbatim>\<open>operator new\<close> may throw. The other
  operations ask for a block for the elements the vector holds, for twice that many, or
  for one; there \<^verbatim>\<open>operator new\<close> is taken to grant the block.
\<close>

datatype 'a slot = Uninit | Live 'a

type_synonym 'a RawMemory = "'a slot list"

text \<open>
  What the operations need to know about the element type \<^verbatim>\<open>T\<close>: the value of
  \<^verbatim>\<open>T()\<close>; the value a move (construction or assignment) leaves in its source; and the
  compile-time test \<^verbatim>\<open>is_nothrow_move_constructible_v<T> || !is_copy_constructible_v<T>\<close>.
  Copying, moving, assigning and value-initialising a \<^verbatim>\<open>T\<close> are taken not to throw;
  constructing a \<^verbatim>\<open>T\<close> from the caller's arguments may (see \<open>ctor\<close> below).
\<close>

record 'a elem_type =
  value_init :: 'a
  moved_from :: "'a \<Rightarrow> 'a"
  nothrow_move_or_no_copy :: bool

text \<open>
  The members \<^verbatim>\<open>data_\<close> and \<^verbatim>\<open>size_\<close> of \<^verbatim>\<open>Vector\<close> are the fields \<open>m_data\<close> and
  \<open>m_size\<close> (a name cannot end in an underscore here).
\<close>

record 'a Vector =
  m_data :: "'a RawMemory"
  m_size :: nat

text \<open>
  \<^verbatim>\<open>T(std::forward<Args>(args)...)\<close>: the arguments may refer to objects inside the
  vector's own block, so the value built depends on the block's content at the moment the
  constructor runs. \<open>None\<close> means the constructor throws. The constructor reads the block
  and does not write it.
\<close>

type_synonym 'a ctor = "'a RawMemory \<Rightarrow> 'a option"

text \<open>An argument that lives outside the vector, and one that refers to slot \<open>j\<close> of it.\<close>

definition by_value :: "'a \<Rightarrow> 'a ctor" where
  "by_value x = (\<lambda>mem. Some x)"

definition by_ref :: "nat \<Rightarrow> 'a ctor" where
  "by_ref j = (\<lambda>mem. if j < length mem then (case mem ! j of Live x \<Rightarrow> Some x | Uninit \<Rightarrow> None)
                      else None)"

text \<open>
  How a call ends: it returns a result and leaves a state; an exception leaves it, with the
  state the object is left in; or the call is outside the contract of the operation (a
  failed \<^verbatim>\<open>assert\<close>, an iterator outside the vector) or leaves the vector with a block
  smaller than the capacity it records, which no state of the model describes.
\<close>

datatype ('r, 's) outcome = Returns 'r 's | Throws 's | Undefined

text \<open>The right-hand side of an assignment: the object assigned to, or another one.\<close>

datatype 'a operand = Same_Object | Distinct "'a Vector"

subsection \<open>RawMemory\<close>

definition RawMemory :: "nat \<Rightarrow> 'a RawMemory" where
  "RawMemory capacity = replicate capacity Uninit"

definition RawMemory_Capacity :: "'a RawMemory \<Rightarrow> nat" where
  "RawMemory_Capacity m = length m"

text \<open>
  \<^verbatim>\<open>Allocate(n)\<close>, as the constructor \<^verbatim>\<open>RawMemory(capacity)\<close> calls it, with what it
  depends on outside the header: \<^verbatim>\<open>sizeof(T)\<close>, the number of values of \<^verbatim>\<open>size_t\<close>
  (\<open>2^64\<close> where it has 64 bits), and the byte counts \<^verbatim>\<open>operator new\<close> grants (for any other
  it throws \<^verbatim>\<open>std::bad_alloc\<close>). The product \<^verbatim>\<open>n * sizeof(T)\<close> is taken modulo the range
  of \<^verbatim>\<open>size_t\<close>. When it wraps, \<^verbatim>\<open>operator new\<close> is asked for fewer bytes than \<open>n\<close>
  objects need, and the \<^verbatim>\<open>RawMemory\<close> built records the capacity \<open>n\<close> for a block that
  is shorter: \<open>Short_block\<close>.
\<close>

record alloc_env =
  sizeof_T :: nat
  size_t_range :: nat
  operator_new :: "nat \<Rightarrow> bool"

datatype 'a allocation = Block "'a RawMemory" | Short_block | Bad_alloc

definition Allocate :: "alloc_env \<Rightarrow> nat \<Rightarrow> 'a allocation" where
  "Allocate env n =
     (if n \<noteq> 0
      then let bytes = (n * sizeof_T env) mod size_t_range env
           in if \<not> operator_new env bytes then Bad_alloc
              else if bytes = n * sizeof_T env then Block (RawMemory n)
              else Short_block
      else Block [])"

text \<open>Both return the pair (this block, the other block) after the call.\<close>

definition RawMemory_Swap :: "'a RawMemory \<Rightarrow> 'a RawMemory \<Rightarrow> 'a RawMemory \<times> 'a RawMemory" where
  "RawMemory_Swap this other = (other, this)"

definition RawMemory_move_assign :: "'a RawMemory \<Rightarrow> 'a RawMemory \<Rightarrow> 'a RawMemory \<times> 'a RawMemory" where
  "RawMemory_move_assign this rhs = (rhs, [])"

subsection \<open>Reading and moving single slots\<close>

text \<open>Reading outside the block is undefined in C++; the model reads a slot with no object.\<close>

definition read_slot :: "'a RawMemory \<Rightarrow> nat \<Rightarrow> 'a slot" where
  "read_slot mem i = (if i < length mem then mem ! i else Uninit)"

definition moved :: "'a elem_type \<Rightarrow> 'a slot \<Rightarrow> 'a slot" where
  "moved T s = (case s of Live x \<Rightarrow> Live (moved_from T x) | Uninit \<Rightarrow> Uninit)"

subsection \<open>The standard algorithms the vector calls\<close>

text \<open>
  Each takes the block(s) it works on and offsets into them, and returns the block(s)
  afterwards. \<open>s\<close> and \<open>d\<close> are the source and destination offsets.
\<close>

fun destroy_n :: "'a RawMemory \<Rightarrow> nat \<Rightarrow> nat \<Rightarrow> 'a RawMemory" where
  "destroy_n mem p 0 = mem"
| "destroy_n mem p (Suc n) = destroy_n (mem[p := Uninit]) (Suc p) n"

fun uninitialized_value_construct_n :: "'a elem_type \<Rightarrow> 'a RawMemory \<Rightarrow> nat \<Rightarrow> nat \<Rightarrow> 'a RawMemory" where
  "uninitialized_value_construct_n T mem p 0 = mem"
| "uninitialized_value_construct_n T mem p (Suc n) =
     uninitialized_value_construct_n T (mem[p := Live (value_init T)]) (Suc p) n"

fun uninitialized_copy_n :: "'a RawMemory \<Rightarrow> nat \<Rightarrow> nat \<Rightarrow> 'a RawMemory \<Rightarrow> nat \<Rightarrow> 'a RawMemory" where
  "uninitialized_copy_n src s 0 dst d = dst"
| "uninitialized_copy_n src s (Suc n) dst d =
     uninitialized_copy_n src (Suc s) n (dst[d := read_slot src s]) (Suc d)"

text \<open>Returns the source block and the destination block.\<close>

fun uninitialized_move_n ::
  "'a elem_type \<Rightarrow> 'a RawMemory \<Rightarrow> nat \<Rightarrow> nat \<Rightarrow> 'a RawMemory \<Rightarrow> nat \<Rightarrow> 'a RawMemory \<times> 'a RawMemory" where
  "uninitialized_move_n T src s 0 dst d = (src, dst)"
| "uninitialized_move_n T src s (Suc n) dst d =
     uninitialized_move_n T (src[s := moved T (read_slot src s)]) (Suc s) n
       (dst[d := read_slot src s]) (Suc d)"

text \<open>
  Moving the object of slot \<open>from\<close> into slot \<open>to\<close> of the same block:
  \<^verbatim>\<open>*to = std::move(*from)\<close>, or \<^verbatim>\<open>new (to) T(std::move(*from))\<close> when \<open>to\<close> holds no
  object yet. The destination gets the value, the source keeps what a move leaves.
\<close>

definition move_slot :: "'a elem_type \<Rightarrow> 'a RawMemory \<Rightarrow> nat \<Rightarrow> nat \<Rightarrow> 'a RawMemory" where
  "move_slot T mem from to = (mem[to := read_slot mem from])[from := moved T (read_slot mem from)]"

text \<open>
  \<^verbatim>\<open>std::move_backward(first, last, d_last)\<close> and \<^verbatim>\<open>std::move(first, last, d_first)\<close>
  inside one block. Their loops run while \<^verbatim>\<open>first != last\<close>; a range with
  \<open>last < first\<close> is not a range, and the model does nothing there.
\<close>

function move_backward :: "'a elem_type \<Rightarrow> 'a RawMemory \<Rightarrow> nat \<Rightarrow> nat \<Rightarrow> nat \<Rightarrow> 'a RawMemory" where
  "move_backward T mem first lst d_last =
     (if first < lst
      then move_backward T (move_slot T mem (lst - 1) (d_last - 1)) first (lst - 1) (d_last - 1)
      else mem)"
  by pat_completeness auto
termination
  by (relation "measure (\<lambda>(T, mem, first, lst, d_last). lst - first)") auto

function std_move :: "'a elem_type \<Rightarrow> 'a RawMemory \<Rightarrow> nat \<Rightarrow> nat \<Rightarrow> nat \<Rightarrow> 'a RawMemory" where
  "std_move T mem first lst d_first =
     (if first < lst
      then std_move T (move_slot T mem first d_first) (Suc first) lst (Suc d_first)
      else mem)"
  by pat_completeness auto
termination
  by (relation "measure (\<lambda>(T, mem, first, lst, d_first). lst - first)") auto

declare move_backward.simps [simp del]
declare std_move.simps [simp del]

section \<open>Vector\<close>

subsection \<open>Constructors, size and capacity\<close>

definition Vector_default :: "'a Vector" where
  "Vector_default = \<lparr>m_data = [], m_size = 0\<rparr>"

definition Vector_sized :: "'a elem_type \<Rightarrow> nat \<Rightarrow> 'a Vector" where
  "Vector_sized T sz = \<lparr>m_data = uninitialized_value_construct_n T (RawMemory sz) 0 sz, m_size = sz\<rparr>"

definition Vector_copy :: "'a Vector \<Rightarrow> 'a Vector" where
  "Vector_copy other =
     \<lparr>m_data = uninitialized_copy_n (m_data other) 0 (m_size other) (RawMemory (m_size other)) 0,
      m_size = m_size other\<rparr>"

text \<open>The move constructor: returns the new vector and the source after the call.\<close>

definition Vector_move :: "'a Vector \<Rightarrow> 'a Vector \<times> 'a Vector" where
  "Vector_move other =
     (case RawMemory_move_assign [] (m_data other) of
        (d, od) \<Rightarrow> (\<lparr>m_data = d, m_size = m_size other\<rparr>, \<lparr>m_data = od, m_size = 0\<rparr>))"

definition Size :: "'a Vector \<Rightarrow> nat" where
  "Size v = m_size v"

definition Capacity :: "'a Vector \<Rightarrow> nat" where
  "Capacity v = RawMemory_Capacity (m_data v)"

subsection \<open>Reserve, Swap, Resize, PopBack\<close>

text \<open>
  \<^verbatim>\<open>Reserve\<close> after its early return: \<open>Reserve_transfer\<close> is the part that follows the
  construction of \<^verbatim>\<open>new_data\<close> (transfer by move or copy, \<^verbatim>\<open>destroy_n\<close>, \<^verbatim>\<open>Swap\<close>).
  When \<^verbatim>\<open>operator new\<close> throws, nothing of the vector has been touched. With a short
  block the vector would record a capacity its block does not have, and the transfer or a
  later append writes past the block.
\<close>

definition Reserve_transfer :: "'a elem_type \<Rightarrow> 'a RawMemory \<Rightarrow> 'a Vector \<Rightarrow> 'a Vector" where
  "Reserve_transfer T new_data v =
     (let (old, new_data) =
               (if nothrow_move_or_no_copy T
                then uninitialized_move_n T (m_data v) 0 (m_size v) new_data 0
                else (m_data v, uninitialized_copy_n (m_data v) 0 (m_size v) new_data 0));
          old = destroy_n old 0 (m_size v);
          (d, new_data) = RawMemory_Swap old new_data
      in v\<lparr>m_data := d\<rparr>)"

definition Reserve :: "alloc_env \<Rightarrow> 'a elem_type \<Rightarrow> nat \<Rightarrow> 'a Vector \<Rightarrow> (unit, 'a Vector) outcome" where
  "Reserve env T new_capacity v =
     (if new_capacity \<le> RawMemory_Capacity (m_data v) then Returns () v
      else
        (case Allocate env new_capacity of
           Bad_alloc \<Rightarrow> Throws v
         | Short_block \<Rightarrow> Undefined
         | Block new_data \<Rightarrow> Returns () (Reserve_transfer T new_data v)))"

text \<open>
  \<^verbatim>\<open>Reserve\<close> where the block asked for is granted, as \<^verbatim>\<open>Resize\<close> is modelled to call it:
  the vector afterwards.
\<close>

definition Reserve_granted :: "'a elem_type \<Rightarrow> nat \<Rightarrow> 'a Vector \<Rightarrow> 'a Vector" where
  "Reserve_granted T new_capacity v =
     (if new_capacity \<le> RawMemory_Capacity (m_data v) then v
      else Reserve_transfer T (RawMemory new_capacity) v)"

text \<open>Returns this vector and the other one after the call.\<close>

definition Swap :: "'a Vector \<Rightarrow> 'a Vector \<Rightarrow> 'a Vector \<times> 'a Vector" where
  "Swap v other =
     (v\<lparr>m_data := m_data other, m_size := m_size other\<rparr>, other\<lparr>m_data := m_data v, m_size := m_size v\<rparr>)"

definition Resize :: "'a elem_type \<Rightarrow> nat \<Rightarrow> 'a Vector \<Rightarrow> 'a Vector" where
  "Resize T new_size v =
     (if m_size v < new_size
      then let v1 = Reserve_granted T new_size v
           in v1\<lparr>m_data := uninitialized_value_construct_n T (m_data v1) 0 (new_size - m_size v1),
                 m_size := new_size\<rparr>
      else v\<lparr>m_data := destroy_n (m_data v) new_size (m_size v - new_size), m_size := new_size\<rparr>)"

definition PopBack :: "'a Vector \<Rightarrow> (unit, 'a Vector) outcome" where
  "PopBack v =
     (if m_size v > 0
      then Returns () (v\<lparr>m_data := destroy_n (m_data v) (m_size v - 1) 1, m_size := m_size v - 1\<rparr>)
      else Undefined)"

subsection \<open>EmplaceBack and PushBack\<close>

definition TransferDataForEmplace ::
  "'a elem_type \<Rightarrow> 'a RawMemory \<Rightarrow> nat \<Rightarrow> nat \<Rightarrow> 'a RawMemory \<Rightarrow> nat \<Rightarrow> 'a RawMemory \<times> 'a RawMemory" where
  "TransferDataForEmplace T src s sz dst d =
     (if nothrow_move_or_no_copy T then uninitialized_move_n T src s sz dst d
      else (src, uninitialized_copy_n src s sz dst d))"

text \<open>
  When the constructor throws on the growing path, the new block is released as the
  exception leaves (it is a local \<^verbatim>\<open>RawMemory\<close>), and the vector is as it was at that
  point. The reference returned is the offset of the new element.
\<close>

definition EmplaceBack :: "'a elem_type \<Rightarrow> 'a ctor \<Rightarrow> 'a Vector \<Rightarrow> (nat, 'a Vector) outcome" where
  "EmplaceBack T args v =
     (if m_size v = Capacity v
      then
        let new_data = RawMemory (if m_size v = 0 then 1 else 2 * m_size v)
        in (case args (m_data v) of
              None \<Rightarrow> Throws v
            | Some x \<Rightarrow>
                let new_data = new_data[m_size v := Live x];
                    (old, new_data) = TransferDataForEmplace T (m_data v) 0 (m_size v) new_data 0;
                    old = destroy_n old 0 (m_size v);
                    (d, new_data) = RawMemory_Swap old new_data
                in Returns (m_size v) (v\<lparr>m_data := d, m_size := m_size v + 1\<rparr>))
      else
        (case args (m_data v) of
           None \<Rightarrow> Throws v
         | Some x \<Rightarrow> Returns (m_size v) (v\<lparr>m_data := (m_data v)[m_size v := Live x], m_size := m_size v + 1\<rparr>)))"

definition PushBack :: "'a elem_type \<Rightarrow> 'a ctor \<Rightarrow> 'a Vector \<Rightarrow> (unit, 'a Vector) outcome" where
  "PushBack T val v =
     (case EmplaceBack T val v of
        Returns r v' \<Rightarrow> Returns () v'
      | Throws v' \<Rightarrow> Throws v'
      | Undefined \<Rightarrow> Undefined)"

subsection \<open>Emplace, Erase, Insert\<close>

text \<open>
  \<open>pos\<close> is the offset of the iterator from \<^verbatim>\<open>cbegin()\<close>, which is what the source
  computes first (\<^verbatim>\<open>pos_index\<close>). An iterator past \<^verbatim>\<open>end()\<close> is outside the contract.
  On the path that shifts in place, the last element is moved into the free slot after it,
  the range from \<open>pos\<close> is moved one slot up, and only then is the temporary built from
  the arguments and moved into slot \<open>pos\<close>; when that constructor throws, the vector keeps
  the shifted block and its old size.
\<close>

definition Emplace :: "'a elem_type \<Rightarrow> nat \<Rightarrow> 'a ctor \<Rightarrow> 'a Vector \<Rightarrow> (nat, 'a Vector) outcome" where
  "Emplace T pos_index args v =
     (if m_size v < pos_index then Undefined
      else if m_size v = RawMemory_Capacity (m_data v)
      then
        let new_data = RawMemory (if m_size v = 0 then 1 else 2 * m_size v)
        in (case args (m_data v) of
              None \<Rightarrow> Throws v
            | Some x \<Rightarrow>
                let new_data = new_data[pos_index := Live x];
                    (old, new_data) = TransferDataForEmplace T (m_data v) 0 pos_index new_data 0;
                    dist_to_end = m_size v - pos_index;
                    (old, new_data) =
                       TransferDataForEmplace T old pos_index dist_to_end new_data (pos_index + 1);
                    old = destroy_n old 0 (m_size v);
                    (d, new_data) = RawMemory_Swap old new_data
                in Returns pos_index (v\<lparr>m_data := d, m_size := m_size v + 1\<rparr>))
      else if pos_index \<noteq> m_size v
      then
        let d = move_slot T (m_data v) (m_size v - 1) (m_size v);
            d = move_backward T d pos_index (m_size v - 1) (m_size v)
        in (case args d of
              None \<Rightarrow> Throws (v\<lparr>m_data := d\<rparr>)
            | Some x \<Rightarrow> Returns pos_index (v\<lparr>m_data := d[pos_index := Live x], m_size := m_size v + 1\<rparr>))
      else
        (case args (m_data v) of
           None \<Rightarrow> Throws v
         | Some x \<Rightarrow>
             Returns pos_index (v\<lparr>m_data := (m_data v)[pos_index := Live x], m_size := m_size v + 1\<rparr>)))"

text \<open>
  \<^verbatim>\<open>Erase\<close> hands \<^verbatim>\<open>std::move\<close> the range from \<open>pos + 1\<close> to \<^verbatim>\<open>end()\<close>, which is a range
  only when \<open>pos\<close> is before \<^verbatim>\<open>end()\<close>.
\<close>

definition Erase :: "'a elem_type \<Rightarrow> nat \<Rightarrow> 'a Vector \<Rightarrow> (nat, 'a Vector) outcome" where
  "Erase T pos_index v =
     (if m_size v \<le> pos_index then Undefined
      else
        (case PopBack (v\<lparr>m_data := std_move T (m_data v) (pos_index + 1) (m_size v) pos_index\<rparr>) of
           Returns u v' \<Rightarrow> Returns pos_index v'
         | Throws v' \<Rightarrow> Throws v'
         | Undefined \<Rightarrow> Undefined))"

definition Insert :: "'a elem_type \<Rightarrow> nat \<Rightarrow> 'a ctor \<Rightarrow> 'a Vector \<Rightarrow> (nat, 'a Vector) outcome" where
  "Insert T pos val v = Emplace T pos val v"

subsection \<open>Element access and assignment\<close>

text \<open>\<^verbatim>\<open>operator[]\<close>: the slot referred to, or \<open>None\<close> when the assertion fails.\<close>

definition subscript :: "'a Vector \<Rightarrow> nat \<Rightarrow> 'a slot option" where
  "subscript v index = (if index < m_size v \<and> index < RawMemory_Capacity (m_data v)
                        then Some (m_data v ! index) else None)"

text \<open>The loop of the copy assignment: \<^verbatim>\<open>data_[i] = rhs.data_[i]\<close> for the indices from \<open>i\<close> up to \<open>n\<close>.\<close>

function assign_prefix :: "'a RawMemory \<Rightarrow> 'a RawMemory \<Rightarrow> nat \<Rightarrow> nat \<Rightarrow> 'a RawMemory" where
  "assign_prefix rhs_data mem i n =
     (if i < n then assign_prefix rhs_data (mem[i := read_slot rhs_data i]) (Suc i) n else mem)"
  by pat_completeness auto
termination
  by (relation "measure (\<lambda>(rhs_data, mem, i, n). n - i)") auto

declare assign_prefix.simps [simp del]

definition copy_assign :: "'a operand \<Rightarrow> 'a Vector \<Rightarrow> 'a Vector" where
  "copy_assign rhs v =
     (case rhs of
        Same_Object \<Rightarrow> v
      | Distinct r \<Rightarrow>
          if m_size r > RawMemory_Capacity (m_data v)
          then fst (Swap v (Vector_copy r))
          else
            let d = assign_prefix (m_data r) (m_data v) 0 (min (m_size v) (m_size r));
                d = (if m_size v < m_size r
                     then uninitialized_copy_n (m_data r) 0 (m_size r - m_size v) d (m_size v)
                     else destroy_n d (m_size r) (m_size v - m_size r))
            in v\<lparr>m_data := d, m_size := m_size r\<rparr>)"

text \<open>The move assignment: returns this vector and the right-hand side after the call.\<close>

definition move_assign :: "'a operand \<Rightarrow> 'a Vector \<Rightarrow> 'a Vector \<times> 'a operand" where
  "move_assign rhs v =
     (case rhs of
        Same_Object \<Rightarrow> (v, Same_Object)
      | Distinct r \<Rightarrow>
          (case RawMemory_move_assign (m_data v) (m_data r) of
             (d, rd) \<Rightarrow> (v\<lparr>m_data := d, m_size := m_size r\<rparr>, Distinct (r\<lparr>m_data := rd, m_size := 0\<rparr>))))"

section \<open>What a vector holds\<close>

text \<open>
  The slots below \<^verbatim>\<open>size_\<close>, which are the ones \<^verbatim>\<open>operator[]\<close> and the iterators reach,
  and the invariant of the class: the size is at most the capacity and each of those slots
  holds an object.
\<close>

definition elements :: "'a Vector \<Rightarrow> 'a slot list" where
  "elements v = take (m_size v) (m_data v)"

definition vector_inv :: "'a Vector \<Rightarrow> bool" where
  "vector_inv v \<longleftrightarrow> m_size v \<le> Capacity v \<and> Uninit \<notin> set (elements v)"

subsection \<open>Calling sequences and a concrete element type\<close>

text \<open>
  \<open>PushBack_each\<close> calls \<^verbatim>\<open>PushBack\<close> with each value of a list in turn and records
  \<^verbatim>\<open>Size()\<close> and \<^verbatim>\<open>Capacity()\<close> after each call. \<open>int_elem\<close> is \<^verbatim>\<open>T = int\<close>: \<^verbatim>\<open>int()\<close>
  is 0, a move leaves the value where it was, and moving cannot throw.
\<close>

fun PushBack_each :: "'a elem_type \<Rightarrow> 'a list \<Rightarrow> 'a Vector \<Rightarrow> (nat \<times> nat) list" where
  "PushBack_each T [] v = []"
| "PushBack_each T (x # xs) v =
     (case PushBack T (by_value x) v of
        Returns u v' \<Rightarrow> (Size v', Capacity v') # PushBack_each T xs v'
      | Throws v' \<Rightarrow> []
      | Undefined \<Rightarrow> [])"

definition int_elem :: "int elem_type" where
  "int_elem = \<lparr>value_init = 0, moved_from = (\<lambda>x. x), nothrow_move_or_no_copy = True\<rparr>"

text \<open>
  Two environments for \<^verbatim>\<open>Vector<int>\<close> with a 4-byte \<^verbatim>\<open>int\<close> and a 64-bit \<^verbatim>\<open>size_t\<close>: in
  the first \<^verbatim>\<open>operator new\<close> grants every request, in the second every request of at most
  \<open>2^32\<close> bytes.
\<close>

definition int_env :: alloc_env where
  "int_env = \<lparr>sizeof_T = 4, size_t_range = 2 ^ 64, operator_new = (\<lambda>bytes. True)\<rparr>"

definition int_env_limited :: alloc_env where
  "int_env_limited = \<lparr>sizeof_T = 4, size_t_range = 2 ^ 64, operator_new = (\<lambda>bytes. bytes \<le> 2 ^ 32)\<rparr>"

section \<open>Facts about the algorithms\<close>

text \<open>Each algorithm keeps the length of a block, and changes exactly the slots of its range.\<close>

lemma length_destroy_n [simp]: "length (destroy_n mem p n) = length mem"
  by (induction n arbitrary: mem p) auto

lemma nth_destroy_n:
  "i < length mem \<Longrightarrow> destroy_n mem p n ! i = (if p \<le> i \<and> i < p + n then Uninit else mem ! i)"
  by (induction n arbitrary: mem p) (auto simp: nth_list_update)

lemma length_value_construct [simp]:
  "length (uninitialized_value_construct_n T mem p n) = length mem"
  by (induction n arbitrary: mem p) auto

lemma nth_value_construct:
  "i < length mem \<Longrightarrow> uninitialized_value_construct_n T mem p n ! i =
     (if p \<le> i \<and> i < p + n then Live (value_init T) else mem ! i)"
  by (induction n arbitrary: mem p) (auto simp: nth_list_update)

lemma length_copy_n [simp]: "length (uninitialized_copy_n src s n dst d) = length dst"
  by (induction n arbitrary: s dst d) auto

lemma offset_step: "Suc d \<le> i \<Longrightarrow> Suc (s + i - Suc d) = s + i - d"
  by arith

lemma nth_copy_n:
  "i < length dst \<Longrightarrow> uninitialized_copy_n src s n dst d ! i =
     (if d \<le> i \<and> i < d + n then read_slot src (s + (i - d)) else dst ! i)"
proof (induction n arbitrary: s dst d)
  case 0
  then show ?case by auto
next
  case (Suc n)
  let ?dst = "dst[d := read_slot src s]"
  have "uninitialized_copy_n src s (Suc n) dst d ! i =
        (if Suc d \<le> i \<and> i < Suc d + n then read_slot src (Suc s + (i - Suc d)) else ?dst ! i)"
    using Suc.IH [of ?dst "Suc s" "Suc d"] Suc.prems by simp
  also have "\<dots> = (if d \<le> i \<and> i < d + Suc n then read_slot src (s + (i - d)) else dst ! i)"
  proof (cases "i = d")
    case True
    with Suc.prems show ?thesis by simp
  next
    case False
    then show ?thesis by (auto simp: offset_step)
  qed
  finally show ?case .
qed

lemma length_move_n [simp]:
  "length (fst (uninitialized_move_n T src s n dst d)) = length src"
  "length (snd (uninitialized_move_n T src s n dst d)) = length dst"
  by (induction n arbitrary: src s dst d) auto

lemma read_slot_update_other: "j \<noteq> s \<Longrightarrow> read_slot (src[s := x]) j = read_slot src j"
  by (simp add: read_slot_def)

lemma nth_move_n_dst:
  "i < length dst \<Longrightarrow> snd (uninitialized_move_n T src s n dst d) ! i =
     (if d \<le> i \<and> i < d + n then read_slot src (s + (i - d)) else dst ! i)"
proof (induction n arbitrary: src s dst d)
  case 0
  then show ?case by auto
next
  case (Suc n)
  let ?src = "src[s := moved T (read_slot src s)]"
  let ?dst = "dst[d := read_slot src s]"
  have "snd (uninitialized_move_n T src s (Suc n) dst d) ! i =
        (if Suc d \<le> i \<and> i < Suc d + n then read_slot ?src (Suc s + (i - Suc d)) else ?dst ! i)"
    using Suc.IH [of ?dst ?src "Suc s" "Suc d"] Suc.prems by simp
  also have "\<dots> = (if d \<le> i \<and> i < d + Suc n then read_slot src (s + (i - d)) else dst ! i)"
  proof (cases "i = d")
    case True
    with Suc.prems show ?thesis by simp
  next
    case False
    then show ?thesis by (auto simp: offset_step read_slot_update_other)
  qed
  finally show ?case .
qed

lemma nth_move_n_src:
  "i < length src \<Longrightarrow> fst (uninitialized_move_n T src s n dst d) ! i =
     (if s \<le> i \<and> i < s + n then moved T (src ! i) else src ! i)"
proof (induction n arbitrary: src s dst d)
  case 0
  then show ?case by auto
next
  case (Suc n)
  let ?src = "src[s := moved T (read_slot src s)]"
  let ?dst = "dst[d := read_slot src s]"
  have "fst (uninitialized_move_n T src s (Suc n) dst d) ! i =
        (if Suc s \<le> i \<and> i < Suc s + n then moved T (?src ! i) else ?src ! i)"
    using Suc.IH [of ?src "Suc s" ?dst "Suc d"] Suc.prems by simp
  also have "\<dots> = (if s \<le> i \<and> i < s + Suc n then moved T (src ! i) else src ! i)"
  proof (cases "i = s")
    case True
    with Suc.prems show ?thesis by (simp add: read_slot_def)
  next
    case False
    then show ?thesis by auto
  qed
  finally show ?case .
qed

lemma length_TransferDataForEmplace [simp]:
  "length (fst (TransferDataForEmplace T src s n dst d)) = length src"
  "length (snd (TransferDataForEmplace T src s n dst d)) = length dst"
  by (simp_all add: TransferDataForEmplace_def)

lemma length_move_slot [simp]: "length (move_slot T mem from to) = length mem"
  by (simp add: move_slot_def)

lemma nth_move_slot:
  "from < length mem \<Longrightarrow> to < length mem \<Longrightarrow> from \<noteq> to \<Longrightarrow> i < length mem \<Longrightarrow>
   move_slot T mem from to ! i =
     (if i = from then moved T (mem ! from) else if i = to then mem ! from else mem ! i)"
  by (simp add: move_slot_def read_slot_def nth_list_update)

lemma length_move_backward [simp]: "length (move_backward T mem first lst d_last) = length mem"
proof (induction T mem first lst d_last rule: move_backward.induct)
  case (1 T mem first lst d_last)
  then show ?case by (subst move_backward.simps) auto
qed

lemma length_std_move [simp]: "length (std_move T mem first lst d_first) = length mem"
proof (induction T mem first lst d_first rule: std_move.induct)
  case (1 T mem first lst d_first)
  then show ?case by (subst std_move.simps) auto
qed

lemma nth_move_backward:
  "lst = first + n \<Longrightarrow> lst < length mem \<Longrightarrow> i < length mem \<Longrightarrow>
   move_backward T mem first lst (Suc lst) ! i =
     (if first < i \<and> i \<le> lst then mem ! (i - 1)
      else if i = first \<and> first < lst then moved T (mem ! first)
      else mem ! i)"
proof (induction n arbitrary: mem lst)
  case 0
  then show ?case by (subst move_backward.simps) auto
next
  case (Suc n)
  let ?mem = "move_slot T mem (lst - 1) lst"
  have l: "lst - 1 = first + n" "lst - 1 < length ?mem" "i < length ?mem" "Suc (lst - 1) = lst"
    using Suc.prems by simp_all
  have "move_backward T mem first lst (Suc lst) ! i = move_backward T ?mem first (lst - 1) (Suc (lst - 1)) ! i"
    using Suc.prems by (subst move_backward.simps) simp
  also have "\<dots> = (if first < i \<and> i \<le> lst - 1 then ?mem ! (i - 1)
      else if i = first \<and> first < lst - 1 then moved T (?mem ! first)
      else ?mem ! i)"
    using Suc.IH [OF l(1) l(2) l(3)] .
  also have "\<dots> = (if first < i \<and> i \<le> lst then mem ! (i - 1)
      else if i = first \<and> first < lst then moved T (mem ! first)
      else mem ! i)"
    using Suc.prems by (auto simp: nth_move_slot)
  finally show ?case .
qed

lemma nth_std_move:
  "lst = Suc p + n \<Longrightarrow> lst \<le> length mem \<Longrightarrow> i < length mem \<Longrightarrow>
   std_move T mem (Suc p) lst p ! i =
     (if p \<le> i \<and> i < lst - 1 then mem ! (i + 1)
      else if i = lst - 1 \<and> p < lst - 1 then moved T (mem ! (lst - 1))
      else mem ! i)"
proof (induction n arbitrary: mem p)
  case 0
  then show ?case by (subst std_move.simps) auto
next
  case (Suc n)
  let ?mem = "move_slot T mem (Suc p) p"
  have l: "lst = Suc (Suc p) + n" "lst \<le> length ?mem" "i < length ?mem"
    using Suc.prems by simp_all
  have "std_move T mem (Suc p) lst p ! i = std_move T ?mem (Suc (Suc p)) lst (Suc p) ! i"
    using Suc.prems by (subst std_move.simps) simp
  also have "\<dots> = (if Suc p \<le> i \<and> i < lst - 1 then ?mem ! (i + 1)
      else if i = lst - 1 \<and> Suc p < lst - 1 then moved T (?mem ! (lst - 1))
      else ?mem ! i)"
    using Suc.IH [OF l(1) l(2) l(3)] .
  also have "\<dots> = (if p \<le> i \<and> i < lst - 1 then mem ! (i + 1)
      else if i = lst - 1 \<and> p < lst - 1 then moved T (mem ! (lst - 1))
      else mem ! i)"
    using Suc.prems by (auto simp: nth_move_slot)
  finally show ?case .
qed

lemma nth_Transfer_dst:
  "i < length dst \<Longrightarrow> snd (TransferDataForEmplace T src s n dst d) ! i =
     (if d \<le> i \<and> i < d + n then read_slot src (s + (i - d)) else dst ! i)"
  by (simp add: TransferDataForEmplace_def nth_move_n_dst nth_copy_n)

lemma read_Transfer_src:
  "s + n \<le> j \<Longrightarrow> read_slot (fst (TransferDataForEmplace T src s n dst d)) j = read_slot src j"
  by (simp add: TransferDataForEmplace_def read_slot_def nth_move_n_src)

lemma nth_Transfer_src_above:
  "s + n \<le> j \<Longrightarrow> j < length src \<Longrightarrow> fst (TransferDataForEmplace T src s n dst d) ! j = src ! j"
  by (simp add: TransferDataForEmplace_def nth_move_n_src)

lemma list_with_inserted:
  assumes "length ys = Suc (length xs)" "p \<le> length xs"
    and "\<And>i. i \<le> length xs \<Longrightarrow> ys ! i = (if i < p then xs ! i else if i = p then a else xs ! (i - 1))"
  shows "ys = take p xs @ a # drop p xs"
proof (rule nth_equalityI)
  show "length ys = length (take p xs @ a # drop p xs)"
    using assms(1,2) by simp
  fix i assume "i < length ys"
  then have i: "i \<le> length xs" using assms(1) by simp
  show "ys ! i = (take p xs @ a # drop p xs) ! i"
  proof (cases "i < p")
    case True
    then show ?thesis using assms(2,3) i by (simp add: nth_append)
  next
    case False
    show ?thesis
    proof (cases "i = p")
      case True
      then show ?thesis using assms(2,3) i by (simp add: nth_append)
    next
      case False
      with \<open>\<not> i < p\<close> have "p < i" by simp
      then obtain k where k: "i = Suc (p + k)" using less_imp_Suc_add by blast
      then show ?thesis using assms(2) i assms(3) [of i] by (simp add: nth_append)
    qed
  qed
qed

lemma list_with_removed:
  assumes "Suc (length ys) = length xs" "p < length xs"
    and "\<And>i. i < length ys \<Longrightarrow> ys ! i = (if i < p then xs ! i else xs ! (i + 1))"
  shows "ys = take p xs @ drop (Suc p) xs"
proof (rule nth_equalityI)
  show "length ys = length (take p xs @ drop (Suc p) xs)"
    using assms(1,2) by simp
  fix i assume i: "i < length ys"
  show "ys ! i = (take p xs @ drop (Suc p) xs) ! i"
  proof (cases "i < p")
    case True
    then show ?thesis using assms(2,3) i by (simp add: nth_append)
  next
    case False
    then obtain k where k: "i = p + k" using le_Suc_ex not_less by blast
    then show ?thesis using assms(1,2) i assms(3) [of i] by (simp add: nth_append min_def)
  qed
qed

lemma nth_shift:
  assumes "pos < n" "n < length mem" "i < length mem"
  shows "move_backward T (move_slot T mem (n - 1) n) pos (n - 1) n ! i =
           (if i < pos then mem ! i else if i = pos then moved T (mem ! pos)
            else if i \<le> n then mem ! (i - 1) else mem ! i)"
proof -
  obtain m where m: "n = Suc m" using assms(1) by (cases n) auto
  obtain k where k: "m = pos + k" using assms(1) m le_Suc_ex by (metis less_Suc_eq_le)
  let ?mem = "move_slot T mem m n"
  have "move_backward T ?mem pos m (Suc m) ! i =
     (if pos < i \<and> i \<le> m then ?mem ! (i - 1)
      else if i = pos \<and> pos < m then moved T (?mem ! pos)
      else ?mem ! i)"
    using nth_move_backward [OF k, of ?mem i T] assms m by simp
  also have "\<dots> = (if i < pos then mem ! i else if i = pos then moved T (mem ! pos)
            else if i \<le> n then mem ! (i - 1) else mem ! i)"
    using assms m by (auto simp: nth_move_slot)
  finally show ?thesis using m by simp
qed

section \<open>Reserve\<close>

lemma nth_Reserve:
  assumes "Capacity v < c" "i < c"
  shows "m_data (Reserve_granted T c v) ! i = (if i < m_size v then read_slot (m_data v) i else Uninit)"
  using assms
  by (simp add: Reserve_granted_def Reserve_transfer_def Capacity_def RawMemory_Capacity_def RawMemory_Swap_def RawMemory_def
        Let_def case_prod_beta nth_move_n_dst nth_copy_n)

lemma Reserve_grows:
  assumes "Capacity v < c"
  shows "Capacity (Reserve_granted T c v) = c" "m_size (Reserve_granted T c v) = m_size v"
  using assms
  by (simp_all add: Reserve_granted_def Reserve_transfer_def Capacity_def RawMemory_Capacity_def RawMemory_Swap_def RawMemory_def
        Let_def case_prod_beta)

lemma Reserve_elements:
  assumes "Capacity v < c" "m_size v \<le> Capacity v"
  shows "elements (Reserve_granted T c v) = elements v"
  unfolding elements_def Reserve_grows(2) [OF assms(1)]
proof (rule nth_take_lemma)
  show "m_size v \<le> length (m_data (Reserve_granted T c v))"
    using assms Reserve_grows(1) [OF assms(1), of T] by (simp add: Capacity_def RawMemory_Capacity_def)
  show "m_size v \<le> length (m_data v)"
    using assms by (simp add: Capacity_def RawMemory_Capacity_def)
  show "i < m_size v \<longrightarrow> m_data (Reserve_granted T c v) ! i = m_data v ! i" for i
    using assms nth_Reserve [of v c i T]
    by (simp add: read_slot_def Capacity_def RawMemory_Capacity_def)
qed

lemma Allocate_granted:
  assumes "n * sizeof_T env < size_t_range env" "operator_new env (n * sizeof_T env)"
  shows "Allocate env n = Block (RawMemory n)"
  using assms by (simp add: Allocate_def RawMemory_def Let_def)

lemma Reserve_enough: "c \<le> Capacity v \<Longrightarrow> Reserve env T c v = Returns () v"
  by (simp add: Reserve_def Capacity_def)

lemma Reserve_block_granted:
  assumes "Capacity v < c" "c * sizeof_T env < size_t_range env" "operator_new env (c * sizeof_T env)"
  shows "Reserve env T c v = Returns () (Reserve_granted T c v)"
  using assms(1)
  by (simp add: Reserve_def Reserve_granted_def Capacity_def Allocate_granted [OF assms(2,3)])

lemma Reserve_bad_alloc:
  assumes "Capacity v < c" "\<not> operator_new env ((c * sizeof_T env) mod size_t_range env)"
  shows "Reserve env T c v = Throws v"
  using assms by (auto simp: Reserve_def Allocate_def Capacity_def Let_def)

lemma Reserve_wrapped:
  assumes "Capacity v < c" "operator_new env ((c * sizeof_T env) mod size_t_range env)"
    and "size_t_range env \<le> c * sizeof_T env" "0 < size_t_range env"
  shows "Reserve env T c v = Undefined"
proof -
  have "(c * sizeof_T env) mod size_t_range env < size_t_range env"
    using assms(4) by simp
  then have "(c * sizeof_T env) mod size_t_range env \<noteq> c * sizeof_T env"
    using assms(3) by simp
  then show ?thesis
    using assms(1,2) by (auto simp: Reserve_def Allocate_def Capacity_def Let_def)
qed

text \<open>
  C4, as stated, at two requests on the \<^verbatim>\<open>Vector<int>\<close> holding 1, 2 with capacity 2.
  \<^verbatim>\<open>Reserve(2^62 + 1)\<close>: the byte count \<open>(2^62 + 1) * 4\<close> wraps to 4, \<^verbatim>\<open>operator new\<close> grants
  4 bytes, and the call does not end with a vector of capacity \<open>2^62 + 1\<close> holding 1, 2: the
  transfer of the two elements already writes past the block. \<^verbatim>\<open>Reserve(2^60)\<close> where
  \<^verbatim>\<open>operator new\<close> does not grant \<open>2^62\<close> bytes: the exception leaves the vector as it was,
  with capacity 2.
\<close>

theorem Reserve_request_counterexample:
  "Capacity \<lparr>m_data = [Live (1::int), Live 2], m_size = 2\<rparr> < 2 ^ 62 + 1 \<and>
   Reserve int_env int_elem (2 ^ 62 + 1) \<lparr>m_data = [Live 1, Live 2], m_size = 2\<rparr> = Undefined \<and>
   Capacity \<lparr>m_data = [Live (1::int), Live 2], m_size = 2\<rparr> < 2 ^ 60 \<and>
   Reserve int_env_limited int_elem (2 ^ 60) \<lparr>m_data = [Live 1, Live 2], m_size = 2\<rparr>
     = Throws \<lparr>m_data = [Live 1, Live 2], m_size = 2\<rparr>"
  by (simp add: Reserve_def Allocate_def Capacity_def RawMemory_Capacity_def int_env_def
        int_env_limited_def Let_def)

text \<open>
  C4, amended. \<^verbatim>\<open>Reserve(c)\<close> with \<open>c\<close> at most the capacity returns and leaves the vector
  as it is. With \<open>c\<close> above the capacity, when \<open>c * sizeof(T)\<close> is within the range of
  \<^verbatim>\<open>size_t\<close> and \<^verbatim>\<open>operator new\<close> grants that many bytes, the call returns, the capacity is
  exactly \<open>c\<close>, the size is unchanged, and (the size being at most the capacity, as the
  class keeps it) the elements keep their values and their order.
\<close>

theorem Reserve_capacity:
  "(c \<le> Capacity v \<longrightarrow> Reserve env T c v = Returns () v) \<and>
   (Capacity v < c \<and> c * sizeof_T env < size_t_range env \<and> operator_new env (c * sizeof_T env) \<longrightarrow>
      (\<exists>v'. Reserve env T c v = Returns () v' \<and>
         Capacity v' = c \<and> Size v' = Size v \<and>
         (Size v \<le> Capacity v \<longrightarrow> elements v' = elements v)))"
proof (intro conjI impI)
  assume "c \<le> Capacity v"
  then show "Reserve env T c v = Returns () v" by (rule Reserve_enough)
next
  assume a: "Capacity v < c \<and> c * sizeof_T env < size_t_range env \<and> operator_new env (c * sizeof_T env)"
  then have r: "Reserve env T c v = Returns () (Reserve_granted T c v)"
    using Reserve_block_granted [of v c env T] by simp
  have "Capacity (Reserve_granted T c v) = c" "Size (Reserve_granted T c v) = Size v"
    using a Reserve_grows [of v c T] by (simp_all add: Size_def)
  moreover have "Size v \<le> Capacity v \<longrightarrow> elements (Reserve_granted T c v) = elements v"
    using a Reserve_elements [of v c T] by (simp add: Size_def)
  ultimately show "\<exists>v'. Reserve env T c v = Returns () v' \<and>
         Capacity v' = c \<and> Size v' = Size v \<and>
         (Size v \<le> Capacity v \<longrightarrow> elements v' = elements v)"
    using r by simp
qed

theorem Reserve_capacity_witness:
  "Capacity \<lparr>m_data = [Live (4::int), Live 5, Uninit], m_size = 2\<rparr> < 5 \<and>
   5 * sizeof_T int_env < size_t_range int_env \<and> operator_new int_env (5 * sizeof_T int_env) \<and>
   Size \<lparr>m_data = [Live (4::int), Live 5, Uninit], m_size = 2\<rparr>
     \<le> Capacity \<lparr>m_data = [Live (4::int), Live 5, Uninit], m_size = 2\<rparr> \<and>
   (\<exists>v'. Reserve int_env int_elem 5 \<lparr>m_data = [Live 4, Live 5, Uninit], m_size = 2\<rparr> = Returns () v' \<and>
         Capacity v' = 5 \<and> Size v' = 2 \<and> elements v' = [Live 4, Live 5]) \<and>
   2 \<le> Capacity \<lparr>m_data = [Live (4::int), Live 5, Uninit], m_size = 2\<rparr> \<and>
   Reserve int_env int_elem 2 \<lparr>m_data = [Live 4, Live 5, Uninit], m_size = 2\<rparr>
     = Returns () \<lparr>m_data = [Live 4, Live 5, Uninit], m_size = 2\<rparr>"
  using Reserve_capacity [of 5 "\<lparr>m_data = [Live 4, Live 5, Uninit], m_size = 2\<rparr>" int_env int_elem]
    Reserve_capacity [of 2 "\<lparr>m_data = [Live 4, Live 5, Uninit], m_size = 2\<rparr>" int_env int_elem]
  by (auto simp: Capacity_def RawMemory_Capacity_def Size_def elements_def int_env_def)

section \<open>Appending\<close>

lemma EmplaceBack_returns:
  assumes "args (m_data v) = Some x"
  shows "\<exists>v'. EmplaceBack T args v = Returns (m_size v) v' \<and> m_size v' = m_size v + 1 \<and>
           Capacity v' = (if m_size v = Capacity v then max 1 (2 * Capacity v) else Capacity v)"
  using assms
  by (auto simp: EmplaceBack_def Let_def Capacity_def RawMemory_Capacity_def RawMemory_def
        RawMemory_Swap_def case_prod_beta max_def Suc_le_eq)

text \<open>
  A sequence of calls from any vector: every call returns, the sizes count up by one from
  the size at the start, and the capacities never go down.
\<close>

lemma PushBack_each_general:
  "length (PushBack_each T xs v) = length xs \<and>
   map fst (PushBack_each T xs v) = map (\<lambda>k. Size v + k) [1..<Suc (length xs)] \<and>
   sorted (Capacity v # map snd (PushBack_each T xs v))"
proof (induction xs arbitrary: v)
  case Nil
  then show ?case by simp
next
  case (Cons x xs)
  have "by_value x (m_data v) = Some x" by (simp add: by_value_def)
  from EmplaceBack_returns [where args = "by_value x" and T = T, OF this]
  obtain v' where v': "EmplaceBack T (by_value x) v = Returns (m_size v) v'" "m_size v' = m_size v + 1"
    "Capacity v' = (if m_size v = Capacity v then max 1 (2 * Capacity v) else Capacity v)"
    by blast
  have p: "PushBack_each T (x # xs) v = (Size v', Capacity v') # PushBack_each T xs v'"
    using v'(1) by (simp add: PushBack_def)
  have c: "Capacity v \<le> Capacity v'" using v'(3) by (simp add: max_def)
  have m: "map (\<lambda>k. Size v + k) [1..<Suc (Suc (length xs))]
           = (Size v + 1) # map (\<lambda>k. Size v' + k) [1..<Suc (length xs)]"
  proof -
    have "[1..<Suc (Suc (length xs))] = 1 # map Suc [1..<Suc (length xs)]"
      by (metis One_nat_def map_Suc_upt upt_conv_Cons zero_less_Suc Suc_less_eq)
    then show ?thesis using v'(2) by (simp add: Size_def comp_def)
  qed
  show ?case
    using Cons.IH [of v'] p c m v'(2) by (auto simp: Size_def)
qed

text \<open>
  C3. A call of \<^verbatim>\<open>PushBack\<close> whose element constructor does not throw returns, with the size
  one larger and the capacity not smaller; the capacity changes exactly when the size was
  equal to the capacity before the call, and then it becomes \<open>max 1 (2 * capacity)\<close>.
  In a sequence of calls with values \<open>xs\<close> from a vector \<open>w\<close>, every call returns, the
  sizes after the calls are \<open>Size w + 1\<close>, \<open>Size w + 2\<close>, ..., and the capacities, starting
  with the one of \<open>w\<close>, never decrease. Five calls on a default-constructed vector give the sizes 1, 2, 3, 4, 5 and the capacities
  1, 2, 4, 4, 8.
\<close>

theorem PushBack_size_capacity:
  "(val (m_data v) = Some x \<longrightarrow>
     (\<exists>v'. PushBack T val v = Returns () v' \<and> Size v' = Size v + 1 \<and> Capacity v \<le> Capacity v' \<and>
        (Capacity v' \<noteq> Capacity v \<longleftrightarrow> Size v = Capacity v) \<and>
        (Size v = Capacity v \<longrightarrow> Capacity v' = max 1 (2 * Capacity v)))) \<and>
   (length (PushBack_each T xs w) = length xs \<and>
    map fst (PushBack_each T xs w) = map (\<lambda>k. Size w + k) [1..<Suc (length xs)] \<and>
    sorted (Capacity w # map snd (PushBack_each T xs w))) \<and>
   PushBack_each T [a, b, c, d, e] Vector_default = [(1, 1), (2, 2), (3, 4), (4, 4), (5, 8)]"
proof (intro conjI impI)
  assume "val (m_data v) = Some x"
  then obtain v' where "EmplaceBack T val v = Returns (m_size v) v'" "m_size v' = m_size v + 1"
    "Capacity v' = (if m_size v = Capacity v then max 1 (2 * Capacity v) else Capacity v)"
    using EmplaceBack_returns [of val v x T] by blast
  then show "\<exists>v'. PushBack T val v = Returns () v' \<and> Size v' = Size v + 1 \<and> Capacity v \<le> Capacity v' \<and>
        (Capacity v' \<noteq> Capacity v \<longleftrightarrow> Size v = Capacity v) \<and>
        (Size v = Capacity v \<longrightarrow> Capacity v' = max 1 (2 * Capacity v))"
    by (auto simp: PushBack_def Size_def)
next
  show "length (PushBack_each T xs w) = length xs"
    and "map fst (PushBack_each T xs w) = map (\<lambda>k. Size w + k) [1..<Suc (length xs)]"
    and "sorted (Capacity w # map snd (PushBack_each T xs w))"
    using PushBack_each_general [of T xs w] by blast+
next
  show "PushBack_each T [a, b, c, d, e] Vector_default = [(1, 1), (2, 2), (3, 4), (4, 4), (5, 8)]"
    by (simp add: PushBack_def EmplaceBack_def Vector_default_def Capacity_def RawMemory_Capacity_def
          RawMemory_def RawMemory_Swap_def TransferDataForEmplace_def by_value_def Size_def Let_def
          split: prod.splits)
qed

theorem PushBack_size_capacity_witness:
  "by_value (7::int) (m_data \<lparr>m_data = [Live 3], m_size = 1\<rparr>) = Some 7 \<and>
   (\<exists>v'. PushBack int_elem (by_value 7) \<lparr>m_data = [Live 3], m_size = 1\<rparr> = Returns () v' \<and>
         Size v' = 2 \<and> Capacity v' = 2)"
  using PushBack_size_capacity [of "by_value 7" "\<lparr>m_data = [Live 3], m_size = 1\<rparr>" 7 int_elem
      "[]" Vector_default 1 2 3 4 5]
  by (auto simp: by_value_def Size_def Capacity_def RawMemory_Capacity_def)

lemma EmplaceBack_throws:
  "EmplaceBack T args v = Throws v' \<longleftrightarrow> args (m_data v) = None \<and> v' = v"
  by (auto simp: EmplaceBack_def Let_def case_prod_beta split: option.splits)

lemma EmplaceBack_grow:
  assumes "m_size v = Capacity v" "args (m_data v) = Some x"
  shows "\<exists>v'. EmplaceBack T args v = Returns (m_size v) v' \<and> m_size v' = m_size v + 1 \<and>
           Capacity v' = max 1 (2 * Capacity v) \<and>
           (\<forall>i < Capacity v'. m_data v' ! i =
               (if i < m_size v then m_data v ! i else if i = m_size v then Live x else Uninit))"
  using assms
  by (auto simp: EmplaceBack_def Let_def case_prod_beta Capacity_def RawMemory_Capacity_def
        RawMemory_Swap_def RawMemory_def nth_Transfer_dst read_slot_def max_def Suc_le_eq)

section \<open>Emplace, Insert and Erase\<close>

lemma Emplace_grow:
  assumes "pos \<le> m_size v" "m_size v = Capacity v" "args (m_data v) = Some x"
  shows "\<exists>v'. Emplace T pos args v = Returns pos v' \<and> m_size v' = m_size v + 1 \<and>
           Capacity v' = max 1 (2 * Capacity v) \<and>
           (\<forall>i < Capacity v'. m_data v' ! i =
               (if i < pos then m_data v ! i else if i = pos then Live x
                else if i \<le> m_size v then m_data v ! (i - 1) else Uninit))"
  using assms
  by (auto simp: Emplace_def Let_def case_prod_beta Capacity_def RawMemory_Capacity_def
        RawMemory_Swap_def RawMemory_def nth_Transfer_dst nth_Transfer_src_above read_slot_def
        max_def Suc_le_eq)

lemma Emplace_at_end:
  assumes "m_size v < Capacity v" "args (m_data v) = Some x"
  shows "Emplace T (m_size v) args v =
           Returns (m_size v) (v\<lparr>m_data := (m_data v)[m_size v := Live x], m_size := m_size v + 1\<rparr>)"
  using assms by (simp add: Emplace_def Capacity_def)

lemma Emplace_shift:
  assumes "pos < m_size v" "m_size v < Capacity v"
    and "d = move_backward T (move_slot T (m_data v) (m_size v - 1) (m_size v)) pos (m_size v - 1) (m_size v)"
    and "args d = Some x"
  shows "Emplace T pos args v = Returns pos (v\<lparr>m_data := d[pos := Live x], m_size := m_size v + 1\<rparr>)"
  using assms by (simp add: Emplace_def Capacity_def Let_def)

lemma Emplace_throws_unshifted:
  assumes "pos \<le> m_size v" "m_size v = Capacity v \<or> pos = m_size v" "args (m_data v) = None"
  shows "Emplace T pos args v = Throws v"
  using assms by (auto simp: Emplace_def Capacity_def Let_def)

lemma elements_with_inserted:
  assumes "m_size v \<le> length (m_data v)" "m_size v' = Suc (m_size v)"
    and "m_size v' \<le> length (m_data v')" "pos \<le> m_size v"
    and "\<And>i. i \<le> m_size v \<Longrightarrow>
           m_data v' ! i = (if i < pos then m_data v ! i else if i = pos then a else m_data v ! (i - 1))"
  shows "elements v' = take pos (elements v) @ a # drop pos (elements v)"
proof (rule list_with_inserted)
  show "length (elements v') = Suc (length (elements v))"
    using assms(1-3) by (simp add: elements_def)
  show "pos \<le> length (elements v)"
    using assms(1,4) by (simp add: elements_def)
  show "elements v' ! i = (if i < pos then elements v ! i else if i = pos then a else elements v ! (i - 1))"
    if "i \<le> length (elements v)" for i
    using that assms(1,2,4) assms(5) [of i] by (auto simp: elements_def)
qed

lemma elements_with_removed:
  assumes "m_size v \<le> length (m_data v)" "Suc (m_size v') = m_size v"
    and "m_size v' \<le> length (m_data v')" "pos < m_size v"
    and "\<And>i. i < m_size v' \<Longrightarrow> m_data v' ! i = (if i < pos then m_data v ! i else m_data v ! (i + 1))"
  shows "elements v' = take pos (elements v) @ drop (Suc pos) (elements v)"
proof (rule list_with_removed)
  show "Suc (length (elements v')) = length (elements v)"
    using assms(1-3) by (simp add: elements_def)
  show "pos < length (elements v)"
    using assms(1,4) by (simp add: elements_def)
  show "elements v' ! i = (if i < pos then elements v ! i else elements v ! (i + 1))"
    if "i < length (elements v')" for i
    using that assms(1,2,3,4) assms(5) [of i] by (auto simp: elements_def)
qed

lemma Emplace_result:
  assumes "pos \<le> m_size v" "m_size v \<le> Capacity v" "Emplace T pos args v = Returns it v'"
  shows "\<exists>mem x. args mem = Some x \<and> length mem = length (m_data v) \<and>
           (\<forall>j<pos. mem ! j = m_data v ! j) \<and>
           it = pos \<and> m_size v' = m_size v + 1 \<and> m_size v' \<le> Capacity v' \<and>
           Capacity v \<le> Capacity v' \<and>
           elements v' = take pos (elements v) @ Live x # drop pos (elements v)"
proof -
  have len: "m_size v \<le> length (m_data v)"
    using assms(2) by (simp add: Capacity_def RawMemory_Capacity_def)
  consider (grow) "m_size v = Capacity v"
    | (at_end) "m_size v < Capacity v" "pos = m_size v"
    | (shift) "m_size v < Capacity v" "pos < m_size v"
    using assms(1,2) by linarith
  then show ?thesis
  proof cases
    case grow
    obtain x where x: "args (m_data v) = Some x"
      using assms(1,3) grow Emplace_throws_unshifted [of pos v args T]
      by (cases "args (m_data v)") auto
    from Emplace_grow [where args = args and T = T, OF assms(1) grow x] assms(3)
    have r: "it = pos" "m_size v' = m_size v + 1" "Capacity v' = max 1 (2 * Capacity v)"
      "\<And>i. i < Capacity v' \<Longrightarrow> m_data v' ! i =
               (if i < pos then m_data v ! i else if i = pos then Live x
                else if i \<le> m_size v then m_data v ! (i - 1) else Uninit)"
      by auto
    have cap: "m_size v' \<le> Capacity v'" "Capacity v \<le> Capacity v'"
      using r(2,3) grow by (auto simp: max_def)
    have "elements v' = take pos (elements v) @ Live x # drop pos (elements v)"
    proof (rule elements_with_inserted [OF len])
      show "m_size v' = Suc (m_size v)" using r(2) by simp
      show "m_size v' \<le> length (m_data v')"
        using cap by (simp add: Capacity_def RawMemory_Capacity_def)
      show "pos \<le> m_size v" by (rule assms(1))
      show "m_data v' ! i = (if i < pos then m_data v ! i else if i = pos then Live x else m_data v ! (i - 1))"
        if "i \<le> m_size v" for i
        using that r(4) [of i] cap r(2) by simp
    qed
    with x r cap show ?thesis by blast
  next
    case at_end
    obtain x where x: "args (m_data v) = Some x"
      using assms(1,3) at_end Emplace_throws_unshifted [of pos v args T]
      by (cases "args (m_data v)") auto
    from Emplace_at_end [where args = args and T = T, OF at_end(1) x] assms(3) at_end(2)
    have r: "it = pos" "v' = v\<lparr>m_data := (m_data v)[m_size v := Live x], m_size := m_size v + 1\<rparr>"
      by auto
    have cap: "m_size v' \<le> Capacity v'" "Capacity v \<le> Capacity v'" "m_size v' = m_size v + 1"
      using r(2) at_end by (auto simp: Capacity_def RawMemory_Capacity_def)
    have "elements v' = take pos (elements v) @ Live x # drop pos (elements v)"
    proof (rule elements_with_inserted [OF len])
      show "m_size v' = Suc (m_size v)" using cap(3) by simp
      show "m_size v' \<le> length (m_data v')"
        using cap by (simp add: Capacity_def RawMemory_Capacity_def)
      show "pos \<le> m_size v" by (rule assms(1))
      show "m_data v' ! i = (if i < pos then m_data v ! i else if i = pos then Live x else m_data v ! (i - 1))"
        if "i \<le> m_size v" for i
        using that r(2) at_end by (auto simp: Capacity_def RawMemory_Capacity_def)
    qed
    with x r cap show ?thesis by blast
  next
    case shift
    define d where "d = move_backward T (move_slot T (m_data v) (m_size v - 1) (m_size v)) pos
                          (m_size v - 1) (m_size v)"
    have lt: "m_size v < length (m_data v)"
      using shift(1) by (simp add: Capacity_def RawMemory_Capacity_def)
    have d: "d ! i = (if i < pos then m_data v ! i else if i = pos then moved T (m_data v ! pos)
            else if i \<le> m_size v then m_data v ! (i - 1) else m_data v ! i)"
      if "i < length (m_data v)" for i
      unfolding d_def using nth_shift [OF shift(2) lt that] .
    have dlen: "length d = length (m_data v)" by (simp add: d_def)
    obtain x where x: "args d = Some x"
      using assms(3) shift by (cases "args d") (auto simp: Emplace_def Capacity_def Let_def d_def)
    from Emplace_shift [where args = args, OF shift(2,1) d_def x] assms(3)
    have r: "it = pos" "v' = v\<lparr>m_data := d[pos := Live x], m_size := m_size v + 1\<rparr>"
      by auto
    have cap: "m_size v' \<le> Capacity v'" "Capacity v \<le> Capacity v'" "m_size v' = m_size v + 1"
      using r(2) shift dlen by (auto simp: Capacity_def RawMemory_Capacity_def)
    have "elements v' = take pos (elements v) @ Live x # drop pos (elements v)"
    proof (rule elements_with_inserted [OF len])
      show "m_size v' = Suc (m_size v)" using cap(3) by simp
      show "m_size v' \<le> length (m_data v')"
        using cap by (simp add: Capacity_def RawMemory_Capacity_def)
      show "pos \<le> m_size v" by (rule assms(1))
      show "m_data v' ! i = (if i < pos then m_data v ! i else if i = pos then Live x else m_data v ! (i - 1))"
        if "i \<le> m_size v" for i
        using that r(2) lt dlen d [of i] by (auto simp: nth_list_update)
    qed
    moreover have "\<forall>j<pos. d ! j = m_data v ! j"
      using d shift(2) lt by simp
    ultimately show ?thesis using x r cap dlen by blast
  qed
qed

lemma Erase_result:
  assumes "pos < m_size v" "m_size v \<le> Capacity v"
  shows "\<exists>v'. Erase T pos v = Returns pos v' \<and> Suc (m_size v') = m_size v \<and>
           Capacity v' = Capacity v \<and>
           elements v' = take pos (elements v) @ drop (Suc pos) (elements v)"
proof -
  have len: "m_size v \<le> length (m_data v)"
    using assms(2) by (simp add: Capacity_def RawMemory_Capacity_def)
  define d where "d = std_move T (m_data v) (Suc pos) (m_size v) pos"
  define v' where "v' = v\<lparr>m_data := destroy_n d (m_size v - 1) 1, m_size := m_size v - 1\<rparr>"
  have e: "Erase T pos v = Returns pos v'"
    using assms(1) by (simp add: Erase_def PopBack_def d_def v'_def)
  have sz: "Suc (m_size v') = m_size v" "Capacity v' = Capacity v"
    using assms(1) by (simp_all add: v'_def d_def Capacity_def RawMemory_Capacity_def)
  obtain n where n: "m_size v = Suc pos + n"
    using assms(1) less_imp_Suc_add by auto
  have "elements v' = take pos (elements v) @ drop (Suc pos) (elements v)"
  proof (rule elements_with_removed [OF len sz(1)])
    show "m_size v' \<le> length (m_data v')"
      using len by (simp add: v'_def d_def)
    show "pos < m_size v" by (rule assms(1))
    show "m_data v' ! i = (if i < pos then m_data v ! i else m_data v ! (i + 1))"
      if "i < m_size v'" for i
    proof -
      have i: "i < length (m_data v)" "i < m_size v - 1"
        using that sz(1) len by simp_all
      have "m_data v' ! i = d ! i"
        using i by (simp add: v'_def d_def)
      also have "\<dots> = (if i < pos then m_data v ! i else m_data v ! (i + 1))"
        unfolding d_def using nth_std_move [OF n len i(1), of T] i(2) by auto
      finally show ?thesis .
    qed
  qed
  with e sz show ?thesis by blast
qed

lemma Emplace_returns:
  assumes "pos \<le> m_size v" "m_size v \<le> Capacity v"
    and "\<And>mem. length mem = length (m_data v) \<Longrightarrow> (\<forall>j<pos. mem ! j = m_data v ! j) \<Longrightarrow> args mem = Some x"
  shows "\<exists>v'. Emplace T pos args v = Returns pos v' \<and> m_size v' = m_size v + 1 \<and>
           m_size v' \<le> Capacity v' \<and> Capacity v \<le> Capacity v' \<and>
           elements v' = take pos (elements v) @ Live x # drop pos (elements v)"
proof -
  have x: "args (m_data v) = Some x"
    using assms(3) [of "m_data v"] by simp
  have "\<exists>it v'. Emplace T pos args v = Returns it v'"
  proof -
    consider (grow) "m_size v = Capacity v"
      | (at_end) "m_size v < Capacity v" "pos = m_size v"
      | (shift) "m_size v < Capacity v" "pos < m_size v"
      using assms(1,2) by linarith
    then show ?thesis
    proof cases
      case grow
      then show ?thesis
        using Emplace_grow [where args = args and T = T, OF assms(1) grow x] by blast
    next
      case at_end
      then show ?thesis
        using Emplace_at_end [where args = args and T = T, OF at_end(1) x] by simp
    next
      case shift
      define d where "d = move_backward T (move_slot T (m_data v) (m_size v - 1) (m_size v)) pos
                            (m_size v - 1) (m_size v)"
      have lt: "m_size v < length (m_data v)"
        using shift(1) by (simp add: Capacity_def RawMemory_Capacity_def)
      have "length d = length (m_data v)" by (simp add: d_def)
      moreover have "\<forall>j<pos. d ! j = m_data v ! j"
        unfolding d_def using nth_shift [OF shift(2) lt] shift(2) lt by simp
      ultimately have "args d = Some x" by (rule assms(3))
      then show ?thesis
        using Emplace_shift [where args = args, OF shift(2,1) d_def] by simp
    qed
  qed
  then obtain it v' where r: "Emplace T pos args v = Returns it v'" by blast
  from Emplace_result [OF assms(1,2) r] obtain mem x' where
    m: "args mem = Some x'" "length mem = length (m_data v)" "\<forall>j<pos. mem ! j = m_data v ! j"
    and p: "it = pos" "m_size v' = m_size v + 1" "m_size v' \<le> Capacity v'" "Capacity v \<le> Capacity v'"
      "elements v' = take pos (elements v) @ Live x' # drop pos (elements v)"
    by blast
  from assms(3) [OF m(2,3)] m(1) have "x' = x" by simp
  with r p show ?thesis by simp
qed

lemma subscript_elements:
  "i < m_size v \<Longrightarrow> m_size v \<le> Capacity v \<Longrightarrow> subscript v i = Some (elements v ! i)"
  by (simp add: subscript_def elements_def Capacity_def)

lemma elements_at_inserted:
  assumes "elements v' = take pos (elements v) @ Live x # drop pos (elements v)"
    and "pos \<le> m_size v" "m_size v \<le> Capacity v" "m_size v' = m_size v + 1" "m_size v' \<le> Capacity v'"
  shows "subscript v' pos = Some (Live x)"
proof -
  have "length (take pos (elements v)) = pos"
    using assms(2,3) by (simp add: elements_def Capacity_def RawMemory_Capacity_def)
  then have "elements v' ! pos = Live x"
    using assms(1) by (simp add: nth_append)
  moreover have "pos < m_size v'" using assms(2,4) by simp
  ultimately show ?thesis
    using subscript_elements [of pos v'] assms(5) by simp
qed


subsection \<open>Appending to a full block\<close>

text \<open>
  C7. On a vector whose size equals its capacity, \<^verbatim>\<open>EmplaceBack\<close> runs the element
  constructor on the block as it was before the call; when the constructor succeeds the call
  returns with capacity \<open>max 1 (2 * capacity)\<close>, the new element in slot \<open>size\<close> of the
  new block and the old elements before it. When the constructor throws, the exception
  leaves the vector exactly as it was (block, size and capacity), and that is the only
  state an exception of \<^verbatim>\<open>EmplaceBack\<close> can leave.
\<close>

theorem EmplaceBack_strong_guarantee:
  "(Size v = Capacity v \<and> args (m_data v) = Some x \<longrightarrow>
      (\<exists>v'. EmplaceBack T args v = Returns (Size v) v' \<and> Capacity v' = max 1 (2 * Capacity v) \<and>
            Size v' = Size v + 1 \<and> subscript v' (Size v) = Some (Live x) \<and>
            elements v' = elements v @ [Live x])) \<and>
   (args (m_data v) = None \<longrightarrow> EmplaceBack T args v = Throws v) \<and>
   (EmplaceBack T args v = Throws w \<longrightarrow> w = v)"
proof (intro conjI impI)
  assume a: "Size v = Capacity v \<and> args (m_data v) = Some x"
  then have sz: "m_size v = Capacity v" and x: "args (m_data v) = Some x"
    by (simp_all add: Size_def)
  from EmplaceBack_grow [where args = args and T = T, OF sz x] obtain v' where
    r: "EmplaceBack T args v = Returns (m_size v) v'" "m_size v' = m_size v + 1"
       "Capacity v' = max 1 (2 * Capacity v)"
       "\<And>i. i < Capacity v' \<Longrightarrow> m_data v' ! i =
               (if i < m_size v then m_data v ! i else if i = m_size v then Live x else Uninit)"
    by blast
  have cap: "m_size v' \<le> Capacity v'" using r(2,3) sz by (simp add: max_def)
  have len: "m_size v \<le> length (m_data v)" "m_size v' \<le> length (m_data v')"
    using sz cap by (simp_all add: Capacity_def RawMemory_Capacity_def)
  have "elements v' = take (m_size v) (elements v) @ Live x # drop (m_size v) (elements v)"
  proof (rule elements_with_inserted [OF len(1) _ len(2)])
    show "m_size v' = Suc (m_size v)" using r(2) by simp
    show "m_size v \<le> m_size v" by simp
    show "m_data v' ! i = (if i < m_size v then m_data v ! i else if i = m_size v then Live x
                           else m_data v ! (i - 1))" if "i \<le> m_size v" for i
      using that r(4) [of i] cap r(2) by simp
  qed
  then have e: "elements v' = elements v @ [Live x]"
    using len(1) by (simp add: elements_def)
  have "subscript v' (m_size v) = Some (Live x)"
    using r(4) [of "m_size v"] cap r(2) by (simp add: subscript_def Capacity_def)
  with r e show "\<exists>v'. EmplaceBack T args v = Returns (Size v) v' \<and> Capacity v' = max 1 (2 * Capacity v) \<and>
            Size v' = Size v + 1 \<and> subscript v' (Size v) = Some (Live x) \<and>
            elements v' = elements v @ [Live x]"
    by (simp add: Size_def)
next
  assume "args (m_data v) = None"
  then show "EmplaceBack T args v = Throws v" by (simp add: EmplaceBack_throws)
next
  assume "EmplaceBack T args v = Throws w"
  then show "w = v" by (simp add: EmplaceBack_throws)
qed

theorem EmplaceBack_strong_guarantee_witness:
  "Size \<lparr>m_data = [Live (4::int), Live 5], m_size = 2\<rparr> = Capacity \<lparr>m_data = [Live (4::int), Live 5], m_size = 2\<rparr> \<and>
   by_value (6::int) [Live 4, Live 5] = Some 6 \<and>
   (\<exists>v'. EmplaceBack int_elem (by_value 6) \<lparr>m_data = [Live 4, Live 5], m_size = 2\<rparr> = Returns 2 v' \<and>
         Capacity v' = 4 \<and> elements v' = [Live 4, Live 5, Live 6]) \<and>
   by_ref 7 [Live (4::int), Live 5] = None \<and>
   EmplaceBack int_elem (by_ref 7) \<lparr>m_data = [Live 4, Live 5], m_size = 2\<rparr>
     = Throws \<lparr>m_data = [Live 4, Live 5], m_size = 2\<rparr>"
  using EmplaceBack_strong_guarantee [of "\<lparr>m_data = [Live 4, Live 5], m_size = 2\<rparr>" "by_value 6" 6 int_elem]
    EmplaceBack_strong_guarantee [of "\<lparr>m_data = [Live 4, Live 5], m_size = 2\<rparr>" "by_ref 7" 0 int_elem]
  by (simp add: Size_def Capacity_def RawMemory_Capacity_def elements_def by_value_def by_ref_def) blast

subsection \<open>Inserting and erasing\<close>

text \<open>
  C5. Inserting a value at a position \<open>pos\<close> with \<open>pos \<le> size\<close> returns, with the value at
  \<open>pos\<close> between the elements that were before and after it; erasing at \<open>pos\<close> then
  returns and gives back the elements and the size there were. For a vector holding
  10, 20, 30 (whatever free slots follow), inserting 15 at index 1 gives 10, 15, 20, 30 and
  size 4, and erasing at index 1 gives 10, 20, 30 and size 3.
\<close>

theorem Insert_then_Erase:
  "(pos \<le> Size v \<and> Size v \<le> Capacity v \<longrightarrow>
      (\<exists>v1 v2. Insert T pos (by_value x) v = Returns pos v1 \<and> Size v1 = Size v + 1 \<and>
         elements v1 = take pos (elements v) @ Live x # drop pos (elements v) \<and>
         Erase T pos v1 = Returns pos v2 \<and> Size v2 = Size v \<and> elements v2 = elements v)) \<and>
   (\<exists>v1 v2. Insert U 1 (by_value 15) \<lparr>m_data = [Live 10, Live 20, Live 30] @ free, m_size = 3\<rparr>
               = Returns 1 v1 \<and>
         Size v1 = 4 \<and> elements v1 = [Live 10, Live 15, Live 20, Live (30::int)] \<and>
         Erase U 1 v1 = Returns 1 v2 \<and> Size v2 = 3 \<and> elements v2 = [Live 10, Live 20, Live 30])"
proof -
  have general: "\<exists>v1 v2. Insert T pos (by_value x) v = Returns pos v1 \<and> Size v1 = Size v + 1 \<and>
         elements v1 = take pos (elements v) @ Live x # drop pos (elements v) \<and>
         Erase T pos v1 = Returns pos v2 \<and> Size v2 = Size v \<and> elements v2 = elements v"
    if "pos \<le> Size v" "Size v \<le> Capacity v" for pos x and v :: "'b Vector" and T
  proof -
    have a: "pos \<le> m_size v" "m_size v \<le> Capacity v" using that by (simp_all add: Size_def)
    obtain v1 where v1: "Emplace T pos (by_value x) v = Returns pos v1" "m_size v1 = m_size v + 1"
      "m_size v1 \<le> Capacity v1"
      "elements v1 = take pos (elements v) @ Live x # drop pos (elements v)"
      using Emplace_returns [where args = "by_value x" and x = x and T = T, OF a]
      by (auto simp: by_value_def)
    have "pos < m_size v1" using a(1) v1(2) by simp
    from Erase_result [OF this v1(3), of T] obtain v2 where
      v2: "Erase T pos v1 = Returns pos v2" "Suc (m_size v2) = m_size v1"
      "elements v2 = take pos (elements v1) @ drop (Suc pos) (elements v1)"
      by blast
    have "length (elements v) = m_size v"
      using a(2) by (simp add: elements_def Capacity_def RawMemory_Capacity_def)
    then have "elements v2 = elements v"
      using v2(3) v1(4) a(1) by simp
    with v1 v2 show ?thesis by (auto simp: Insert_def Size_def)
  qed
  let ?v = "\<lparr>m_data = [Live 10, Live 20, Live 30] @ free, m_size = 3\<rparr> :: int Vector"
  have "1 \<le> Size ?v" "Size ?v \<le> Capacity ?v"
    by (simp_all add: Size_def Capacity_def RawMemory_Capacity_def)
  from general [OF this, of U 15] have concrete: "\<exists>v1 v2. Insert U 1 (by_value 15) ?v = Returns 1 v1 \<and>
         Size v1 = 4 \<and> elements v1 = [Live 10, Live 15, Live 20, Live (30::int)] \<and>
         Erase U 1 v1 = Returns 1 v2 \<and> Size v2 = 3 \<and> elements v2 = [Live 10, Live 20, Live 30]"
    by (simp add: Size_def elements_def)
  show ?thesis
  proof (intro conjI impI)
    assume "pos \<le> Size v \<and> Size v \<le> Capacity v"
    then show "\<exists>v1 v2. Insert T pos (by_value x) v = Returns pos v1 \<and> Size v1 = Size v + 1 \<and>
         elements v1 = take pos (elements v) @ Live x # drop pos (elements v) \<and>
         Erase T pos v1 = Returns pos v2 \<and> Size v2 = Size v \<and> elements v2 = elements v"
      using general [of pos v T x] by simp
  next
    show "\<exists>v1 v2. Insert U 1 (by_value 15) ?v = Returns 1 v1 \<and>
         Size v1 = 4 \<and> elements v1 = [Live 10, Live 15, Live 20, Live (30::int)] \<and>
         Erase U 1 v1 = Returns 1 v2 \<and> Size v2 = 3 \<and> elements v2 = [Live 10, Live 20, Live 30]"
      by (rule concrete)
  qed
qed

theorem Insert_then_Erase_witness:
  "1 \<le> Size \<lparr>m_data = [Live (10::int), Live 20, Live 30, Uninit], m_size = 3\<rparr> \<and>
   Size \<lparr>m_data = [Live (10::int), Live 20, Live 30, Uninit], m_size = 3\<rparr>
     \<le> Capacity \<lparr>m_data = [Live (10::int), Live 20, Live 30, Uninit], m_size = 3\<rparr> \<and>
   (\<exists>v1 v2. Insert int_elem 1 (by_value 15) \<lparr>m_data = [Live 10, Live 20, Live 30, Uninit], m_size = 3\<rparr>
              = Returns 1 v1 \<and>
      elements v1 = [Live 10, Live 15, Live 20, Live 30] \<and>
      Erase int_elem 1 v1 = Returns 1 v2 \<and> elements v2 = [Live 10, Live 20, Live 30])"
  using Insert_then_Erase [of 1 "\<lparr>m_data = [Live 10, Live 20, Live 30, Uninit], m_size = 3\<rparr>"
      int_elem 15 int_elem "[]"]
  by (simp add: Size_def Capacity_def RawMemory_Capacity_def elements_def) blast

text \<open>
  C8. On a vector with free capacity, \<^verbatim>\<open>Emplace\<close> at a position \<open>pos\<close> before the end,
  with an argument that refers to the element at an index \<open>j\<close> below \<open>pos\<close>, returns with
  the value that element had at the call in slot \<open>pos\<close>, between the elements that were
  before and after that position.
\<close>

theorem Emplace_argument_below_position:
  "Size v < Capacity v \<and> pos < Size v \<and> j < pos \<and> m_data v ! j = Live y \<longrightarrow>
     (\<exists>v'. Emplace T pos (by_ref j) v = Returns pos v' \<and> Size v' = Size v + 1 \<and>
           subscript v' pos = Some (Live y) \<and>
           elements v' = take pos (elements v) @ Live y # drop pos (elements v))"
proof
  assume a: "Size v < Capacity v \<and> pos < Size v \<and> j < pos \<and> m_data v ! j = Live y"
  then have b: "pos \<le> m_size v" "m_size v \<le> Capacity v" and j: "j < pos" "m_data v ! j = Live y"
    and lt: "pos < length (m_data v)"
    by (simp_all add: Size_def Capacity_def RawMemory_Capacity_def)
  have "by_ref j mem = Some y"
    if "length mem = length (m_data v)" "\<forall>k<pos. mem ! k = m_data v ! k" for mem
    using that j lt by (simp add: by_ref_def)
  from Emplace_returns [where args = "by_ref j" and x = y and T = T, OF b this]
  obtain v' where r: "Emplace T pos (by_ref j) v = Returns pos v'" "m_size v' = m_size v + 1"
    "m_size v' \<le> Capacity v'" "elements v' = take pos (elements v) @ Live y # drop pos (elements v)"
    by blast
  from elements_at_inserted [OF r(4) b r(2,3)] r
  show "\<exists>v'. Emplace T pos (by_ref j) v = Returns pos v' \<and> Size v' = Size v + 1 \<and>
           subscript v' pos = Some (Live y) \<and>
           elements v' = take pos (elements v) @ Live y # drop pos (elements v)"
    by (simp add: Size_def)
qed

theorem Emplace_argument_below_position_witness:
  "Size \<lparr>m_data = [Live (10::int), Live 20, Live 30, Uninit], m_size = 3\<rparr>
     < Capacity \<lparr>m_data = [Live (10::int), Live 20, Live 30, Uninit], m_size = 3\<rparr> \<and>
   1 < Size \<lparr>m_data = [Live (10::int), Live 20, Live 30, Uninit], m_size = 3\<rparr> \<and> (0::nat) < 1 \<and>
   m_data \<lparr>m_data = [Live (10::int), Live 20, Live 30, Uninit], m_size = 3\<rparr> ! 0 = Live 10 \<and>
   (\<exists>v'. Emplace int_elem 1 (by_ref 0) \<lparr>m_data = [Live 10, Live 20, Live 30, Uninit], m_size = 3\<rparr>
            = Returns 1 v' \<and>
         elements v' = [Live 10, Live 10, Live 20, Live 30])"
  using Emplace_argument_below_position
    [of "\<lparr>m_data = [Live 10, Live 20, Live 30, Uninit], m_size = 3\<rparr>" 1 0 10 int_elem]
  by (simp add: Size_def Capacity_def RawMemory_Capacity_def elements_def) blast

text \<open>
  C10. For a position \<open>pos \<le> size\<close>, \<^verbatim>\<open>Insert\<close> is \<^verbatim>\<open>Emplace\<close>, and whenever \<^verbatim>\<open>Emplace\<close>
  returns, the iterator returned is at offset \<open>pos\<close> from the start of the block the vector
  has then, and the slot it refers to holds the new element; with an argument passed by
  value the call does return. This covers the path that reallocates and the one that
  shifts in place.
\<close>

theorem Emplace_returns_iterator:
  "pos \<le> Size v \<and> Size v \<le> Capacity v \<longrightarrow>
     Insert T pos args v = Emplace T pos args v \<and>
     (\<forall>it v'. Emplace T pos args v = Returns it v' \<longrightarrow>
        it = pos \<and>
        (\<exists>x. subscript v' it = Some (Live x) \<and>
             elements v' = take pos (elements v) @ Live x # drop pos (elements v))) \<and>
     (\<exists>v'. Emplace T pos (by_value x) v = Returns pos v' \<and> subscript v' pos = Some (Live x))"
proof (intro impI conjI allI)
  assume a: "pos \<le> Size v \<and> Size v \<le> Capacity v"
  then have b: "pos \<le> m_size v" "m_size v \<le> Capacity v" by (simp_all add: Size_def)
  show "Insert T pos args v = Emplace T pos args v" by (simp add: Insert_def)
  {
    fix it v' assume r: "Emplace T pos args v = Returns it v'"
    from Emplace_result [OF b r] obtain x where
      x: "it = pos" "m_size v' = m_size v + 1" "m_size v' \<le> Capacity v'"
         "elements v' = take pos (elements v) @ Live x # drop pos (elements v)"
      by blast
    from elements_at_inserted [OF x(4) b x(2,3)] x
    show "it = pos" and "\<exists>x. subscript v' it = Some (Live x) \<and>
             elements v' = take pos (elements v) @ Live x # drop pos (elements v)"
      by auto
  }
  have "by_value x mem = Some x" for mem :: "'a RawMemory" by (simp add: by_value_def)
  from Emplace_returns [where args = "by_value x" and x = x and T = T, OF b this]
  obtain v' where r: "Emplace T pos (by_value x) v = Returns pos v'" "m_size v' = m_size v + 1"
    "m_size v' \<le> Capacity v'" "elements v' = take pos (elements v) @ Live x # drop pos (elements v)"
    by blast
  from elements_at_inserted [OF r(4) b r(2,3)] r(1)
  show "\<exists>v'. Emplace T pos (by_value x) v = Returns pos v' \<and> subscript v' pos = Some (Live x)"
    by blast
qed

theorem Emplace_returns_iterator_witness:
  "2 \<le> Size \<lparr>m_data = [Live (10::int), Live 20], m_size = 2\<rparr> \<and>
   Size \<lparr>m_data = [Live (10::int), Live 20], m_size = 2\<rparr>
     \<le> Capacity \<lparr>m_data = [Live (10::int), Live 20], m_size = 2\<rparr> \<and>
   (\<exists>v'. Insert int_elem 2 (by_value 5) \<lparr>m_data = [Live 10, Live 20], m_size = 2\<rparr> = Returns 2 v' \<and>
         subscript v' 2 = Some (Live 5)) \<and>
   0 \<le> Size \<lparr>m_data = [Live (10::int), Live 20, Uninit], m_size = 2\<rparr> \<and>
   Size \<lparr>m_data = [Live (10::int), Live 20, Uninit], m_size = 2\<rparr>
     \<le> Capacity \<lparr>m_data = [Live (10::int), Live 20, Uninit], m_size = 2\<rparr> \<and>
   (\<exists>v'. Insert int_elem 0 (by_value 5) \<lparr>m_data = [Live 10, Live 20, Uninit], m_size = 2\<rparr> = Returns 0 v' \<and>
         subscript v' 0 = Some (Live 5))"
  using Emplace_returns_iterator [of 2 "\<lparr>m_data = [Live 10, Live 20], m_size = 2\<rparr>" int_elem "by_value 5" 5]
    Emplace_returns_iterator [of 0 "\<lparr>m_data = [Live 10, Live 20, Uninit], m_size = 2\<rparr>" int_elem "by_value 5" 5]
  by (simp add: Size_def Capacity_def RawMemory_Capacity_def)

section \<open>Moving a vector\<close>

text \<open>
  C6. After the move constructor, and after a move assignment from a distinct object, the
  source has size 0, and the destination has the elements, the size and the capacity the
  source had before.
\<close>

theorem move_leaves_source_empty:
  "Size (snd (Vector_move src)) = 0 \<and>
   elements (fst (Vector_move src)) = elements src \<and>
   Size (fst (Vector_move src)) = Size src \<and>
   Capacity (fst (Vector_move src)) = Capacity src \<and>
   (\<exists>src'. snd (move_assign (Distinct src) dst) = Distinct src' \<and> Size src' = 0) \<and>
   elements (fst (move_assign (Distinct src) dst)) = elements src \<and>
   Size (fst (move_assign (Distinct src) dst)) = Size src \<and>
   Capacity (fst (move_assign (Distinct src) dst)) = Capacity src"
  by (simp add: Vector_move_def move_assign_def RawMemory_move_assign_def elements_def Size_def
        Capacity_def)

section \<open>The class invariant\<close>

text \<open>
  The constructors, \<^verbatim>\<open>Reserve\<close> (however it ends), \<^verbatim>\<open>Swap\<close>, \<^verbatim>\<open>PopBack\<close>, \<^verbatim>\<open>EmplaceBack\<close>, \<^verbatim>\<open>Emplace\<close>
  (also when its constructor throws), \<^verbatim>\<open>Erase\<close>, both assignments and a shrinking
  \<^verbatim>\<open>Resize\<close> keep the invariant, and none of them but \<^verbatim>\<open>Swap\<close> and the move assignment
  lowers the capacity. \<^verbatim>\<open>Resize\<close> always sets the size it is given and never lowers the
  capacity; \<open>Resize_grow_slots\<close> says which slots a growing \<^verbatim>\<open>Resize\<close> leaves with which
  content, and \<open>copy_assign_elements\<close> says when the copy assignment gives the source's
  elements.
\<close>

lemma vector_inv_nth:
  "vector_inv v \<longleftrightarrow> m_size v \<le> length (m_data v) \<and> (\<forall>i<m_size v. m_data v ! i \<noteq> Uninit)"
proof -
  have "Uninit \<notin> set (take n xs) \<longleftrightarrow> (\<forall>i<n. xs ! i \<noteq> Uninit)" if "n \<le> length xs"
    for n and xs :: "'a slot list"
    using that by (auto simp: in_set_conv_nth)
  then show ?thesis
    by (auto simp: vector_inv_def elements_def Capacity_def RawMemory_Capacity_def)
qed

lemma moved_live: "s \<noteq> Uninit \<Longrightarrow> moved T s \<noteq> Uninit"
  by (cases s) (simp_all add: moved_def)

lemma vector_inv_inserted:
  assumes "vector_inv v" "m_size v' \<le> Capacity v'" "m_size v' = m_size v + 1"
    and "elements v' = take pos (elements v) @ Live x # drop pos (elements v)"
  shows "vector_inv v'"
proof -
  have "set (elements v') \<subseteq> set (elements v) \<union> {Live x}"
    using assms(4) set_take_subset [of pos "elements v"] set_drop_subset [of pos "elements v"]
    by auto
  then show ?thesis using assms(1,2) by (auto simp: vector_inv_def)
qed

lemma vector_inv_Vector_default: "vector_inv Vector_default"
  by (simp add: vector_inv_def Vector_default_def elements_def Capacity_def RawMemory_Capacity_def)

lemma vector_inv_Vector_sized: "vector_inv (Vector_sized T n)"
  by (simp add: vector_inv_nth Vector_sized_def RawMemory_def nth_value_construct)

lemma vector_inv_Vector_copy: "vector_inv other \<Longrightarrow> vector_inv (Vector_copy other)"
  by (simp add: vector_inv_nth Vector_copy_def RawMemory_def nth_copy_n read_slot_def)

lemma vector_inv_Vector_move:
  "vector_inv other \<Longrightarrow> vector_inv (fst (Vector_move other)) \<and> vector_inv (snd (Vector_move other))"
  by (simp add: vector_inv_nth Vector_move_def RawMemory_move_assign_def)

lemma vector_inv_Reserve: "vector_inv v \<Longrightarrow> vector_inv (Reserve_granted T c v) \<and> Capacity v \<le> Capacity (Reserve_granted T c v)"
proof (cases "c \<le> Capacity v")
  case True
  assume "vector_inv v"
  with True show ?thesis by (simp add: Reserve_granted_def Reserve_transfer_def Capacity_def)
next
  case False
  assume v: "vector_inv v"
  from False have c: "Capacity v < c" by simp
  have "m_size v \<le> Capacity v" using v by (simp add: vector_inv_def)
  then show ?thesis
    using v c Reserve_grows [OF c, of T] Reserve_elements [OF c, of T]
    by (simp add: vector_inv_def)
qed

lemma vector_inv_Reserve_outcome:
  assumes "vector_inv v"
  shows "(Reserve env T c v = Returns u v' \<longrightarrow> vector_inv v' \<and> Capacity v \<le> Capacity v') \<and>
         (Reserve env T c v = Throws v' \<longrightarrow> v' = v)"
proof (rule conjI; rule impI)
  assume r: "Reserve env T c v = Returns u v'"
  have "v' = Reserve_granted T c v"
  proof (cases "c \<le> Capacity v")
    case True
    then show ?thesis
      using r by (simp add: Reserve_def Reserve_granted_def Capacity_def)
  next
    case False
    then show ?thesis
      using r
      by (auto simp: Reserve_def Reserve_granted_def Capacity_def Allocate_def Let_def
            split: if_splits)
  qed
  then show "vector_inv v' \<and> Capacity v \<le> Capacity v'"
    using vector_inv_Reserve [OF assms, of T c] by simp
next
  assume "Reserve env T c v = Throws v'"
  then show "v' = v"
    by (auto simp: Reserve_def Allocate_def Let_def split: if_splits)
qed

lemma vector_inv_Swap:
  "vector_inv v \<Longrightarrow> vector_inv other \<Longrightarrow> vector_inv (fst (Swap v other)) \<and> vector_inv (snd (Swap v other))"
  by (simp add: vector_inv_nth Swap_def)

lemma vector_inv_PopBack:
  "vector_inv v \<Longrightarrow> PopBack v = Returns u v' \<Longrightarrow> vector_inv v' \<and> Capacity v' = Capacity v"
  by (auto simp: vector_inv_nth PopBack_def Capacity_def RawMemory_Capacity_def nth_list_update
      split: if_splits)

lemma vector_inv_Resize_shrink:
  "vector_inv v \<Longrightarrow> n \<le> m_size v \<Longrightarrow>
   vector_inv (Resize T n v) \<and> Size (Resize T n v) = n \<and> Capacity (Resize T n v) = Capacity v \<and>
   elements (Resize T n v) = take n (elements v)"
proof -
  assume v: "vector_inv v" and n: "n \<le> m_size v"
  have r: "Resize T n v = v\<lparr>m_data := destroy_n (m_data v) n (m_size v - n), m_size := n\<rparr>"
    using n by (simp add: Resize_def)
  have len: "m_size v \<le> length (m_data v)" using v by (simp add: vector_inv_nth)
  have "take n (destroy_n (m_data v) n (m_size v - n)) = take n (m_data v)"
    by (rule nth_take_lemma) (use n len in \<open>auto simp: nth_destroy_n\<close>)
  then have e: "elements (Resize T n v) = take n (elements v)"
    using n by (simp add: r elements_def min_def)
  have "vector_inv (Resize T n v)"
    using v n by (auto simp: r vector_inv_nth nth_destroy_n)
  with e show ?thesis by (simp add: r Size_def Capacity_def RawMemory_Capacity_def)
qed

lemma Resize_size_capacity:
  "Size (Resize T n v) = n \<and> Capacity v \<le> Capacity (Resize T n v) \<and>
   (m_size v \<le> Capacity v \<longrightarrow> n \<le> Capacity (Resize T n v))"
proof (cases "m_size v < n")
  case False
  then show ?thesis by (simp add: Resize_def Size_def Capacity_def RawMemory_Capacity_def)
next
  case True
  show ?thesis
  proof (cases "n \<le> Capacity v")
    case True
    with \<open>m_size v < n\<close> show ?thesis
      by (simp add: Resize_def Reserve_granted_def Reserve_transfer_def Size_def Capacity_def RawMemory_Capacity_def)
  next
    case False
    then have "Capacity v < n" by simp
    from Reserve_grows [OF this, of T] \<open>m_size v < n\<close> \<open>Capacity v < n\<close> show ?thesis
      by (simp add: Resize_def Size_def Capacity_def RawMemory_Capacity_def Let_def)
  qed
qed

lemma vector_inv_EmplaceBack:
  assumes "vector_inv v" "EmplaceBack T args v = Returns r v'"
  shows "vector_inv v' \<and> Capacity v \<le> Capacity v'"
proof -
  obtain x where x: "args (m_data v) = Some x"
    using assms(2) EmplaceBack_throws [of T args v v] by (cases "args (m_data v)") auto
  show ?thesis
  proof (cases "m_size v = Capacity v")
    case True
    from EmplaceBack_grow [where args = args and T = T, OF True x] assms(2)
    have r: "m_size v' = m_size v + 1" "Capacity v' = max 1 (2 * Capacity v)"
      "\<And>i. i < Capacity v' \<Longrightarrow> m_data v' ! i =
               (if i < m_size v then m_data v ! i else if i = m_size v then Live x else Uninit)"
      by auto
    have "m_size v' \<le> Capacity v'" "Capacity v \<le> Capacity v'"
      using r(1,2) True by (simp_all add: max_def)
    then show ?thesis
      using assms(1) r(1) r(3) by (auto simp: vector_inv_nth Capacity_def RawMemory_Capacity_def)
  next
    case False
    then have "v' = v\<lparr>m_data := (m_data v)[m_size v := Live x], m_size := m_size v + 1\<rparr>"
      using assms(2) x by (auto simp: EmplaceBack_def)
    then show ?thesis
      using assms(1) False
      by (auto simp: vector_inv_nth Capacity_def RawMemory_Capacity_def nth_list_update)
  qed
qed

lemma vector_inv_Emplace:
  assumes "vector_inv v" "Emplace T pos args v = Returns it v'"
  shows "vector_inv v' \<and> Capacity v \<le> Capacity v'"
proof -
  have p: "pos \<le> m_size v"
    using assms(2) by (cases "m_size v < pos") (simp_all add: Emplace_def)
  have c: "m_size v \<le> Capacity v" using assms(1) by (simp add: vector_inv_def)
  from Emplace_result [OF p c assms(2)] obtain x where
    "m_size v' = m_size v + 1" "m_size v' \<le> Capacity v'" "Capacity v \<le> Capacity v'"
    "elements v' = take pos (elements v) @ Live x # drop pos (elements v)"
    by blast
  then show ?thesis using vector_inv_inserted [OF assms(1)] by blast
qed

lemma vector_inv_Emplace_throws:
  assumes "vector_inv v" "Emplace T pos args v = Throws w"
  shows "vector_inv w \<and> Capacity w = Capacity v \<and> m_size w = m_size v"
proof -
  have p: "pos \<le> m_size v"
    using assms(2) by (cases "m_size v < pos") (simp_all add: Emplace_def)
  have c: "m_size v \<le> length (m_data v)" using assms(1) by (simp add: vector_inv_nth)
  show ?thesis
  proof (cases "m_size v = Capacity v \<or> pos = m_size v")
    case True
    then have "w = v"
      using assms(2) p
      by (auto simp: Emplace_def Let_def Capacity_def case_prod_beta split: option.splits if_splits)
    then show ?thesis using assms(1) by simp
  next
    case False
    then have lt: "pos < m_size v" "m_size v < length (m_data v)"
      using p c by (simp_all add: Capacity_def RawMemory_Capacity_def)
    define d where "d = move_backward T (move_slot T (m_data v) (m_size v - 1) (m_size v)) pos
                          (m_size v - 1) (m_size v)"
    have w: "w = v\<lparr>m_data := d\<rparr>"
      using assms(2) False lt
      by (auto simp: Emplace_def Let_def Capacity_def d_def split: option.splits)
    have "d ! i \<noteq> Uninit" if "i < m_size v" for i
      using that lt assms(1) nth_shift [OF lt, of i T]
      by (auto simp: d_def vector_inv_nth moved_live)
    then show ?thesis
      using w c by (simp add: vector_inv_nth d_def Capacity_def RawMemory_Capacity_def)
  qed
qed

lemma vector_inv_Erase:
  assumes "vector_inv v" "Erase T pos v = Returns it v'"
  shows "vector_inv v' \<and> Capacity v' = Capacity v"
proof -
  have p: "pos < m_size v"
    using assms(2) by (cases "m_size v \<le> pos") (simp_all add: Erase_def)
  have c: "m_size v \<le> Capacity v" using assms(1) by (simp add: vector_inv_def)
  from Erase_result [OF p c, of T] assms(2) have
    r: "Suc (m_size v') = m_size v" "Capacity v' = Capacity v"
       "elements v' = take pos (elements v) @ drop (Suc pos) (elements v)"
    by auto
  have "set (elements v') \<subseteq> set (elements v)"
    using r(3) set_take_subset [of pos "elements v"] set_drop_subset [of "Suc pos" "elements v"]
    by auto
  then show ?thesis using assms(1) r c by (auto simp: vector_inv_def)
qed

lemma length_assign_prefix [simp]: "length (assign_prefix rhs_data mem i n) = length mem"
proof (induction rhs_data mem i n rule: assign_prefix.induct)
  case (1 rhs_data mem i n)
  then show ?case by (subst assign_prefix.simps) auto
qed

lemma nth_assign_prefix:
  "k < length mem \<Longrightarrow> assign_prefix rhs_data mem i n ! k =
     (if i \<le> k \<and> k < n then read_slot rhs_data k else mem ! k)"
proof (induction rhs_data mem i n rule: assign_prefix.induct)
  case (1 rhs_data mem i n)
  show ?case
  proof (cases "i < n")
    case True
    then have "assign_prefix rhs_data mem i n ! k
                 = assign_prefix rhs_data (mem[i := read_slot rhs_data i]) (Suc i) n ! k"
      by (subst assign_prefix.simps) simp
    also have "\<dots> = (if Suc i \<le> k \<and> k < n then read_slot rhs_data k
                        else mem[i := read_slot rhs_data i] ! k)"
      using "1.IH" [OF True] "1.prems" by simp
    also have "\<dots> = (if i \<le> k \<and> k < n then read_slot rhs_data k else mem ! k)"
      using True "1.prems" by (cases "k = i") auto
    finally show ?thesis .
  next
    case False
    then show ?thesis by (subst assign_prefix.simps) auto
  qed
qed

lemma nth_copy_assign:
  assumes "m_size r \<le> Capacity v" "m_size v \<le> Capacity v" "m_size r \<le> Capacity r" "i < m_size r"
  shows "m_data (copy_assign (Distinct r) v) ! i =
           (if i < m_size v then m_data r ! i else m_data r ! (i - m_size v))"
  using assms
  by (auto simp: copy_assign_def Let_def Capacity_def RawMemory_Capacity_def nth_copy_n
        nth_destroy_n nth_assign_prefix read_slot_def)

lemma copy_assign_size_capacity:
  "Size (copy_assign (Distinct r) v) = Size r \<and> Capacity v \<le> Capacity (copy_assign (Distinct r) v)"
  by (simp add: copy_assign_def Let_def Capacity_def RawMemory_Capacity_def Size_def Swap_def
        Vector_copy_def RawMemory_def)

lemma vector_inv_copy_assign:
  assumes "vector_inv v" "vector_inv r"
  shows "vector_inv (copy_assign (Distinct r) v)"
proof (cases "Capacity v < m_size r")
  case True
  then have "copy_assign (Distinct r) v = fst (Swap v (Vector_copy r))"
    by (simp add: copy_assign_def Capacity_def)
  then show ?thesis
    using vector_inv_Swap [OF assms(1) vector_inv_Vector_copy [OF assms(2)]] by simp
next
  case False
  then have a: "m_size r \<le> Capacity v" by simp
  have b: "m_size v \<le> Capacity v" "m_size r \<le> Capacity r"
    using assms by (simp_all add: vector_inv_def)
  have "m_data (copy_assign (Distinct r) v) ! i \<noteq> Uninit" if "i < m_size r" for i
    using nth_copy_assign [OF a b that] that assms(2) by (auto simp: vector_inv_nth)
  moreover have "m_size (copy_assign (Distinct r) v) = m_size r"
    "length (m_data (copy_assign (Distinct r) v)) = length (m_data v)"
    using a by (simp_all add: copy_assign_def Let_def Capacity_def RawMemory_Capacity_def)
  ultimately show ?thesis
    using a by (simp add: vector_inv_nth Capacity_def RawMemory_Capacity_def)
qed

lemma copy_assign_elements:
  assumes "vector_inv v" "vector_inv r"
    and "m_size r \<le> m_size v \<or> m_size v = 0 \<or> Capacity v < m_size r"
  shows "elements (copy_assign (Distinct r) v) = elements r"
proof (cases "Capacity v < m_size r")
  case True
  have "m_size r \<le> length (m_data r)" using assms(2) by (simp add: vector_inv_nth)
  then have "take (m_size r) (uninitialized_copy_n (m_data r) 0 (m_size r) (RawMemory (m_size r)) 0)
        = take (m_size r) (m_data r)"
    by (intro nth_take_lemma) (auto simp: nth_copy_n RawMemory_def read_slot_def)
  then show ?thesis
    using True by (simp add: copy_assign_def Capacity_def Swap_def Vector_copy_def elements_def)
next
  case False
  then have a: "m_size r \<le> Capacity v" by simp
  have b: "m_size v \<le> Capacity v" "m_size r \<le> Capacity r"
    using assms by (simp_all add: vector_inv_def)
  have s: "m_size (copy_assign (Distinct r) v) = m_size r"
    "length (m_data (copy_assign (Distinct r) v)) = length (m_data v)"
    using a by (simp_all add: copy_assign_def Let_def Capacity_def RawMemory_Capacity_def)
  have "take (m_size r) (m_data (copy_assign (Distinct r) v)) = take (m_size r) (m_data r)"
  proof (rule nth_take_lemma)
    show "m_size r \<le> length (m_data (copy_assign (Distinct r) v))"
      using a s by (simp add: Capacity_def RawMemory_Capacity_def)
    show "m_size r \<le> length (m_data r)"
      using b by (simp add: Capacity_def RawMemory_Capacity_def)
    show "i < m_size r \<longrightarrow> m_data (copy_assign (Distinct r) v) ! i = m_data r ! i" for i
      using nth_copy_assign [OF a b, of i] assms(3) False by auto
  qed
  then show ?thesis by (simp add: elements_def s)
qed

lemma vector_inv_move_assign:
  "vector_inv v \<Longrightarrow> vector_inv r \<Longrightarrow> move_assign (Distinct r) v = (v', Distinct r') \<Longrightarrow>
   vector_inv v' \<and> vector_inv r'"
  by (auto simp: vector_inv_nth move_assign_def RawMemory_move_assign_def)

lemma Resize_grow_slots:
  assumes "m_size v < n" "m_size v \<le> Capacity v" "i < n"
  shows "m_data (Resize T n v) ! i =
           (if i < n - m_size v then Live (value_init T)
            else if Capacity v < n \<and> m_size v \<le> i then Uninit
            else m_data v ! i)"
proof (cases "Capacity v < n")
  case True
  have "m_size (Reserve_granted T n v) = m_size v" "length (m_data (Reserve_granted T n v)) = n"
    using Reserve_grows [OF True, of T] by (simp_all add: Capacity_def RawMemory_Capacity_def)
  then show ?thesis
    using assms True nth_Reserve [OF True assms(3), of T]
    by (auto simp: Resize_def Let_def nth_value_construct read_slot_def Capacity_def
          RawMemory_Capacity_def)
next
  case False
  then have "Reserve_granted T n v = v" by (simp add: Reserve_granted_def Reserve_transfer_def Capacity_def)
  then show ?thesis
    using assms False
    by (auto simp: Resize_def Let_def nth_value_construct Capacity_def RawMemory_Capacity_def)
qed

section \<open>Copy assignment and Resize\<close>

text \<open>
  C1. Copy assignment into a vector with room for the source, from a longer source: the
  vector holds 1 in a block of capacity 2, the source holds 5, 6. Both satisfy the class
  invariant and the source fits the capacity. The loop assigns 5 to slot 0; the call of
  \<^verbatim>\<open>uninitialized_copy_n\<close> then copies from the start of the source block, so slot 1 gets 5
  as well, and the vector ends as 5, 5, which is not the source.
\<close>

theorem copy_assign_longer_source:
  "vector_inv \<lparr>m_data = [Live (1::int), Uninit], m_size = 1\<rparr> \<and>
   vector_inv \<lparr>m_data = [Live (5::int), Live 6], m_size = 2\<rparr> \<and>
   Size \<lparr>m_data = [Live (5::int), Live 6], m_size = 2\<rparr>
     \<le> Capacity \<lparr>m_data = [Live (1::int), Uninit], m_size = 1\<rparr> \<and>
   copy_assign (Distinct \<lparr>m_data = [Live 5, Live 6], m_size = 2\<rparr>)
     \<lparr>m_data = [Live (1::int), Uninit], m_size = 1\<rparr>
     = \<lparr>m_data = [Live 5, Live 5], m_size = 2\<rparr> \<and>
   elements (copy_assign (Distinct \<lparr>m_data = [Live 5, Live 6], m_size = 2\<rparr>)
               \<lparr>m_data = [Live (1::int), Uninit], m_size = 1\<rparr>)
     \<noteq> elements \<lparr>m_data = [Live 5, Live 6], m_size = 2\<rparr>"
  by (simp add: copy_assign_def RawMemory_Capacity_def assign_prefix.simps read_slot_def Let_def
        vector_inv_def elements_def Capacity_def Size_def)

text \<open>
  C2. \<^verbatim>\<open>Resize(2)\<close> on a vector holding the one element \<open>a\<close>: after \<^verbatim>\<open>Reserve(2)\<close> the call
  of \<^verbatim>\<open>uninitialized_value_construct_n\<close> starts at the start of the block, so it builds
  \<^verbatim>\<open>T()\<close> over the element in slot 0 and leaves slot 1, the newly exposed one, without an
  object; the size becomes 2.
\<close>

theorem Resize_grows_nonempty:
  "Resize T 2 \<lparr>m_data = [Live a], m_size = 1\<rparr>
     = \<lparr>m_data = [Live (value_init T), Uninit], m_size = 2\<rparr> \<and>
   subscript (Resize T 2 \<lparr>m_data = [Live a], m_size = 1\<rparr>) 0 = Some (Live (value_init T)) \<and>
   subscript (Resize T 2 \<lparr>m_data = [Live a], m_size = 1\<rparr>) 1 = Some Uninit"
  by (simp add: Resize_def Reserve_granted_def Reserve_transfer_def RawMemory_Capacity_def RawMemory_def RawMemory_Swap_def
        read_slot_def moved_def Let_def numeral_2_eq_2 subscript_def)

text \<open>
  C9. The vector holding the one \<^verbatim>\<open>int\<close> 7 satisfies the class invariant; after
  \<^verbatim>\<open>Resize(2)\<close> it does not: the size is 2 and slot 1 holds no object.
\<close>

theorem Resize_breaks_invariant:
  "vector_inv \<lparr>m_data = [Live (7::int)], m_size = 1\<rparr> \<and>
   \<not> vector_inv (Resize int_elem 2 \<lparr>m_data = [Live 7], m_size = 1\<rparr>)"
  by (simp add: vector_inv_def elements_def Capacity_def Resize_def Reserve_granted_def Reserve_transfer_def RawMemory_Capacity_def
        RawMemory_def RawMemory_Swap_def read_slot_def moved_def Let_def numeral_2_eq_2 int_elem_def)

end
